theory Spec2Isabelle
  imports Complex_Main
begin

section \<open>JavaScript values\<close>

text \<open>
  The cells of a sheet and the arguments of \<open>resolveColumn\<close> are JavaScript primitives.
  A number is a double: a finite one is given by its rational value, and the three
  values that are not finite stand apart. What the program computes is rounded to the
  nearest double, ties to even, as the machine does, with overflow to infinity and
  underflow to zero. A string is a list of UTF-16 code units; the model has the units
  below 256, one \<open>char\<close> each. The sign of zero, Date cells and the units from 256 on are
  outside the model.
\<close>

datatype jsnum = NaN | NegInfinity | Finite rat | Infinity

datatype jsval = JUndefined | JNull | JBool bool | JNum jsnum | JStr string

text \<open>\<open>isNaN(n)\<close>, \<open>n <= 0\<close> and \<open>n > 0\<close> on numbers.\<close>

fun isNaN :: "jsnum \<Rightarrow> bool" where
  "isNaN NaN = True"
| "isNaN _ = False"

fun num_le0 :: "jsnum \<Rightarrow> bool" where
  "num_le0 NaN = False"
| "num_le0 NegInfinity = True"
| "num_le0 (Finite q) = (q \<le> 0)"
| "num_le0 Infinity = False"

fun num_gt0 :: "jsnum \<Rightarrow> bool" where
  "num_gt0 NaN = False"
| "num_gt0 NegInfinity = False"
| "num_gt0 (Finite q) = (0 < q)"
| "num_gt0 Infinity = True"

fun num_neg :: "jsnum \<Rightarrow> jsnum" where
  "num_neg NaN = NaN"
| "num_neg NegInfinity = Infinity"
| "num_neg (Finite q) = Finite (- q)"
| "num_neg Infinity = NegInfinity"

subsection \<open>Rounding to a double\<close>

text \<open>The number of binary digits of a positive integer.\<close>

function bitLength :: "int \<Rightarrow> int" where
  "bitLength n = (if n \<le> 0 then 0 else 1 + bitLength (n div 2))"
  by pat_completeness auto
termination
  by (relation "measure nat") auto

declare bitLength.simps [simp del]

text \<open>The exponent \<open>e\<close> with \<open>2 ^ e \<le> a / b < 2 ^ (e + 1)\<close>, for positive \<open>a\<close> and \<open>b\<close>.\<close>

definition ilog2 :: "int \<Rightarrow> int \<Rightarrow> int" where
  "ilog2 a b =
     (let d = bitLength a - bitLength b
      in if b * 2 ^ nat d \<le> a * 2 ^ nat (- d) then d else d - 1)"

text \<open>
  The double nearest to \<open>a / b\<close>, for positive \<open>a\<close> and \<open>b\<close>: 53 binary digits, the
  exponent not below -1022 (below it the doubles are subnormal, with the spacing
  \<open>2 ^ -1074\<close>), ties to the even neighbour, and infinity from \<open>2 ^ 1024\<close> on.
\<close>

definition roundPos :: "int \<Rightarrow> int \<Rightarrow> jsnum" where
  "roundPos a b =
     (let e = max (ilog2 a b) (- 1022);
          n = a * 2 ^ nat (52 - e);
          d = b * 2 ^ nat (e - 52);
          f = n div d;
          r = n mod d;
          m = (if 2 * r < d then f else if d < 2 * r then f + 1 else if even f then f else f + 1)
      in if 1023 < e \<or> (e = 1023 \<and> m = 2 ^ 53) then Infinity
         else Finite (of_int (m * 2 ^ nat (e - 52)) / of_int (2 ^ nat (52 - e))))"

definition roundDouble :: "rat \<Rightarrow> jsnum" where
  "roundDouble q =
     (let (a, b) = quotient_of q
      in if a = 0 then Finite 0
         else if 0 < a then roundPos a b
         else num_neg (roundPos (- a) b))"

text \<open>\<open>x + y\<close> and \<open>x * y\<close> on numbers.\<close>

fun num_add :: "jsnum \<Rightarrow> jsnum \<Rightarrow> jsnum" where
  "num_add (Finite a) (Finite b) = roundDouble (a + b)"
| "num_add NaN y = NaN"
| "num_add x NaN = NaN"
| "num_add Infinity NegInfinity = NaN"
| "num_add NegInfinity Infinity = NaN"
| "num_add Infinity y = Infinity"
| "num_add x Infinity = Infinity"
| "num_add NegInfinity y = NegInfinity"
| "num_add x NegInfinity = NegInfinity"

fun num_sign :: "jsnum \<Rightarrow> int" where
  "num_sign NaN = 0"
| "num_sign NegInfinity = - 1"
| "num_sign (Finite q) = (if q < 0 then - 1 else if q = 0 then 0 else 1)"
| "num_sign Infinity = 1"

fun num_mul :: "jsnum \<Rightarrow> jsnum \<Rightarrow> jsnum" where
  "num_mul (Finite a) (Finite b) = roundDouble (a * b)"
| "num_mul NaN y = NaN"
| "num_mul x NaN = NaN"
| "num_mul x y =
     (let s = num_sign x * num_sign y
      in if s = 0 then NaN else if 0 < s then Infinity else NegInfinity)"

text \<open>\<open>!v\<close> is true exactly on the falsy values.\<close>

fun truthy :: "jsval \<Rightarrow> bool" where
  "truthy JUndefined = False"
| "truthy JNull = False"
| "truthy (JBool b) = b"
| "truthy (JNum NaN) = False"
| "truthy (JNum (Finite q)) = (q \<noteq> 0)"
| "truthy (JNum _) = True"
| "truthy (JStr s) = (s \<noteq> [])"

subsection \<open>Strings\<close>

definition charCode :: "char \<Rightarrow> int" where
  "charCode c = of_char c"

text \<open>
  The white space and line terminators that \<open>trim\<close> and \<open>Number\<close> strip: below 256 these
  are the units 9 to 13, the space 32 and the no-break space 160.
\<close>

definition isWhite :: "char \<Rightarrow> bool" where
  "isWhite c = (let k = charCode c in (9 \<le> k \<and> k \<le> 13) \<or> k = 32 \<or> k = 160)"

definition trim :: "string \<Rightarrow> string" where
  "trim s = rev (dropWhile isWhite (rev (dropWhile isWhite s)))"

text \<open>
  \<open>toUpperCase\<close>, unit by unit. The letters a to z and the accented letters 224 to 254
  (not the division sign 247) move down by 32; three characters leave the range below
  256: the micro sign 181 becomes the Greek capital 924, the sharp s 223 becomes two
  letters S, and 255 becomes 376. So the result is a list of units as integers.
\<close>

definition upperUnits :: "char \<Rightarrow> int list" where
  "upperUnits c =
     (let k = charCode c in
      if 97 \<le> k \<and> k \<le> 122 then [k - 32]
      else if k = 181 then [924]
      else if k = 223 then [83, 83]
      else if 224 \<le> k \<and> k \<le> 254 \<and> k \<noteq> 247 then [k - 32]
      else if k = 255 then [376]
      else [k])"

definition toUpperCase :: "string \<Rightarrow> int list" where
  "toUpperCase s = concat (map upperUnits s)"

definition isDigit :: "char \<Rightarrow> bool" where
  "isDigit c = (let k = charCode c in 48 \<le> k \<and> k \<le> 57)"

definition digitVal :: "char \<Rightarrow> int" where
  "digitVal c = charCode c - 48"

text \<open>The value of a string of decimal digits.\<close>

definition decValue :: "string \<Rightarrow> int" where
  "decValue s = foldl (\<lambda>a c. 10 * a + digitVal c) 0 s"

definition allDigits :: "string \<Rightarrow> bool" where
  "allDigits s = (s \<noteq> [] \<and> list_all isDigit s)"

text \<open>
  The regular expression \<open>/^\d+$/\<close> and \<open>parseInt(s, 10)\<close> on the units of an upper-case
  string.
\<close>

definition digitUnit :: "int \<Rightarrow> bool" where
  "digitUnit k = (48 \<le> k \<and> k \<le> 57)"

definition allDigitUnits :: "int list \<Rightarrow> bool" where
  "allDigitUnits u = (u \<noteq> [] \<and> list_all digitUnit u)"

definition decUnits :: "int list \<Rightarrow> int" where
  "decUnits u = foldl (\<lambda>a k. 10 * a + (k - 48)) 0 u"

subsection \<open>\<open>Number(v)\<close>\<close>

text \<open>
  The digit of a character in a radix up to 16, for the literals \<open>0x\<close>, \<open>0o\<close>, \<open>0b\<close>.
\<close>

definition radixDigit :: "char \<Rightarrow> int option" where
  "radixDigit c = (let k = charCode c in
     if 48 \<le> k \<and> k \<le> 57 then Some (k - 48)
     else if 97 \<le> k \<and> k \<le> 102 then Some (k - 87)
     else if 65 \<le> k \<and> k \<le> 70 then Some (k - 55)
     else None)"

fun radixValue :: "int \<Rightarrow> string \<Rightarrow> int \<Rightarrow> int option" where
  "radixValue b [] acc = Some acc"
| "radixValue b (c # cs) acc =
     (case radixDigit c of
        None \<Rightarrow> None
      | Some d \<Rightarrow> if d < b then radixValue b cs (b * acc + d) else None)"

definition radixLiteral :: "int \<Rightarrow> string \<Rightarrow> jsnum" where
  "radixLiteral b s =
     (if s = [] then NaN
      else case radixValue b s 0 of None \<Rightarrow> NaN | Some n \<Rightarrow> roundDouble (of_int n))"

text \<open>The exponent part of a decimal literal: nothing, or \<open>e\<close> with signed digits.\<close>

definition expPart :: "string \<Rightarrow> int option" where
  "expPart s =
     (case s of
        [] \<Rightarrow> Some 0
      | c # r \<Rightarrow>
          if c = CHR ''e'' \<or> c = CHR ''E'' then
            (case r of
               [] \<Rightarrow> None
             | d # r' \<Rightarrow>
                 if d = CHR ''+'' then (if allDigits r' then Some (decValue r') else None)
                 else if d = CHR ''-'' then (if allDigits r' then Some (- decValue r') else None)
                 else if allDigits r then Some (decValue r) else None)
          else None)"

definition scale10 :: "rat \<Rightarrow> int \<Rightarrow> rat" where
  "scale10 q e = (if 0 \<le> e then q * 10 ^ nat e else q / 10 ^ nat (- e))"

definition unsignedDecimal :: "string \<Rightarrow> jsnum" where
  "unsignedDecimal s =
     (if s = ''Infinity'' then Infinity
      else
        let ip = takeWhile isDigit s;
            r1 = dropWhile isDigit s;
            hasDot = (r1 \<noteq> [] \<and> hd r1 = CHR ''.'');
            fp = (if hasDot then takeWhile isDigit (tl r1) else []);
            r2 = (if hasDot then dropWhile isDigit (tl r1) else r1)
        in if ip = [] \<and> fp = [] then NaN
           else case expPart r2 of
                  None \<Rightarrow> NaN
                | Some e \<Rightarrow>
                    roundDouble
                      (scale10 (of_int (decValue ip) + of_int (decValue fp) / 10 ^ length fp) e))"

definition signedDecimal :: "string \<Rightarrow> jsnum" where
  "signedDecimal s =
     (case s of
        [] \<Rightarrow> NaN
      | c # r \<Rightarrow>
          if c = CHR ''+'' then unsignedDecimal r
          else if c = CHR ''-'' then num_neg (unsignedDecimal r)
          else unsignedDecimal s)"

definition stringToNumber :: "string \<Rightarrow> jsnum" where
  "stringToNumber s =
     (let t = trim s in
      if t = [] then Finite 0
      else if take 2 t = ''0x'' \<or> take 2 t = ''0X'' then radixLiteral 16 (drop 2 t)
      else if take 2 t = ''0o'' \<or> take 2 t = ''0O'' then radixLiteral 8 (drop 2 t)
      else if take 2 t = ''0b'' \<or> take 2 t = ''0B'' then radixLiteral 2 (drop 2 t)
      else signedDecimal t)"

fun Number_js :: "jsval \<Rightarrow> jsnum" where
  "Number_js JUndefined = NaN"
| "Number_js JNull = Finite 0"
| "Number_js (JBool b) = (if b then Finite 1 else Finite 0)"
| "Number_js (JNum n) = n"
| "Number_js (JStr s) = stringToNumber s"

text \<open>\<open>v.toString()\<close> for the values that reach it in \<open>resolveColumn\<close>.\<close>

fun toString_js :: "jsval \<Rightarrow> string" where
  "toString_js (JStr s) = s"
| "toString_js (JBool b) = (if b then ''true'' else ''false'')"
| "toString_js JNull = ''null''"
| "toString_js JUndefined = ''undefined''"
| "toString_js (JNum n) = []"

text \<open>
  \<open>a[i]\<close> for an array and a number: the element when \<open>i\<close> is an index of the array,
  \<open>undefined\<close> otherwise.
\<close>

definition js_nth :: "jsval list \<Rightarrow> nat \<Rightarrow> jsval" where
  "js_nth a i = (if i < length a then a ! i else JUndefined)"

fun js_index :: "jsval list \<Rightarrow> jsnum \<Rightarrow> jsval" where
  "js_index a (Finite q) =
     (if 0 \<le> q \<and> of_int \<lfloor>q\<rfloor> = q then js_nth a (nat \<lfloor>q\<rfloor>) else JUndefined)"
| "js_index a _ = JUndefined"

text \<open>\<open>x - 1\<close> on numbers.\<close>

definition num_pred :: "jsnum \<Rightarrow> jsnum" where
  "num_pred x = num_add x (Finite (- 1))"

section \<open>Configuration\<close>

definition SA_TEAM_COLUMN :: jsval where
  "SA_TEAM_COLUMN = JStr ''A''"

definition SA_SOURCE_SHEET :: string where
  "SA_SOURCE_SHEET = ''SA_DATA_MASTER''"

definition SA_ROWS_GAP :: nat where
  "SA_ROWS_GAP = 5"

definition SA_TRACKING_COL :: string where
  "SA_TRACKING_COL = ''SA_PASTED''"

section \<open>\<open>resolveColumn\<close>\<close>

text \<open>The loop over the letters; \<open>None\<close> is the \<open>null\<close> the source returns.\<close>

fun columnLetters :: "int list \<Rightarrow> jsnum \<Rightarrow> jsnum option" where
  "columnLetters [] result = Some result"
| "columnLetters (k # ks) result =
     (let code = k - 64 in
      if code < 1 \<or> code > 26 then None
      else columnLetters ks (num_add (num_mul result (Finite 26)) (Finite (of_int code))))"

definition resolveColumn :: "jsval \<Rightarrow> jsnum option" where
  "resolveColumn ref =
     (if \<not> truthy ref \<and> ref \<noteq> JNum (Finite 0) then None
      else case ref of
        JNum n \<Rightarrow> (if num_gt0 n then Some n else None)
      | _ \<Rightarrow>
          (let s = toUpperCase (trim (toString_js ref)) in
           if allDigitUnits s then Some (roundDouble (of_int (decUnits s)))
           else columnLetters s (Finite 0)))"

section \<open>Sheets\<close>

text \<open>
  A sheet is the list of its rows, each the list of its cells; a cell that the lists do
  not reach is empty, and reads as the empty string. The length of the list is the last
  row the sheet reports and the longest row is the last column it reports: both may lie
  beyond the last cell with content (rows and columns that are blank but formatted),
  never before it. A cell holds the value that was written into it. Formatting, notes,
  the conversion of written text into numbers or booleans and the size limits of a sheet
  are not modelled.
\<close>

type_synonym sheet = "jsval list list"

datatype error = RangeError | WriteRefused

record range =
  rg_row :: nat
  rg_col :: nat
  rg_rows :: nat
  rg_cols :: nat

definition getLastRow :: "sheet \<Rightarrow> nat" where
  "getLastRow sh = length sh"

definition getLastColumn :: "sheet \<Rightarrow> nat" where
  "getLastColumn sh = foldr (\<lambda>row m. max (length row) m) sh 0"

text \<open>The cell in row \<open>r\<close> and column \<open>c\<close>, both counted from 1.\<close>

definition cellAt :: "sheet \<Rightarrow> nat \<Rightarrow> nat \<Rightarrow> jsval" where
  "cellAt sh r c =
     (if 1 \<le> r \<and> r \<le> length sh \<and> 1 \<le> c \<and> c \<le> length (sh ! (r - 1))
      then sh ! (r - 1) ! (c - 1) else JStr [])"

text \<open>
  \<open>sheet.getRange(row, column, numRows, numColumns)\<close> throws unless the four numbers
  are at least 1.
\<close>

definition getRange :: "nat \<Rightarrow> nat \<Rightarrow> nat \<Rightarrow> nat \<Rightarrow> error + range" where
  "getRange r c nr nc =
     (if r < 1 \<or> c < 1 \<or> nr < 1 \<or> nc < 1 then Inl RangeError
      else Inr \<lparr>rg_row = r, rg_col = c, rg_rows = nr, rg_cols = nc\<rparr>)"

definition getValues :: "sheet \<Rightarrow> range \<Rightarrow> jsval list list" where
  "getValues sh rg =
     map (\<lambda>r. map (\<lambda>c. cellAt sh r c) [rg_col rg ..< rg_col rg + rg_cols rg])
       [rg_row rg ..< rg_row rg + rg_rows rg]"

definition padTo :: "nat \<Rightarrow> 'a \<Rightarrow> 'a list \<Rightarrow> 'a list" where
  "padTo n x xs = xs @ replicate (n - length xs) x"

definition writeCells :: "nat \<Rightarrow> jsval list \<Rightarrow> jsval list \<Rightarrow> jsval list" where
  "writeCells c vals row =
     (let p = padTo (c - 1 + length vals) (JStr []) row
      in take (c - 1) p @ vals @ drop (c - 1 + length vals) p)"

text \<open>Writing the values \<open>vals\<close> into row \<open>r\<close> from column \<open>c\<close> on.\<close>

definition writeRowAt :: "sheet \<Rightarrow> nat \<Rightarrow> nat \<Rightarrow> jsval list \<Rightarrow> sheet" where
  "writeRowAt sh r c vals =
     (let p = padTo r [] sh in p[r - 1 := writeCells c vals (p ! (r - 1))])"

definition setValues :: "sheet \<Rightarrow> range \<Rightarrow> jsval list list \<Rightarrow> sheet" where
  "setValues sh rg data =
     foldl (\<lambda>s (i, vals). writeRowAt s (rg_row rg + i) (rg_col rg) vals) sh (enumerate 0 data)"

definition setValue :: "sheet \<Rightarrow> range \<Rightarrow> jsval \<Rightarrow> sheet" where
  "setValue sh rg v = setValues sh rg (replicate (rg_rows rg) (replicate (rg_cols rg) v))"



section \<open>\<open>findLastContentRow\<close>\<close>

definition hasContent :: "jsval \<Rightarrow> bool" where
  "hasContent cell = (cell \<noteq> JStr [] \<and> cell \<noteq> JNull \<and> cell \<noteq> JUndefined)"

text \<open>
  The loop from the bottom up; the argument is the source's \<open>r + 1\<close>, so that the
  loop ends at 0.
\<close>

fun scanRows :: "jsval list list \<Rightarrow> nat \<Rightarrow> nat" where
  "scanRows data 0 = 0"
| "scanRows data (Suc r) =
     (if list_ex hasContent (data ! r) then Suc r else scanRows data r)"

definition findLastContentRow :: "sheet \<Rightarrow> error + nat" where
  "findLastContentRow sh =
     (let lastRow = getLastRow sh in
      if lastRow = 0 then Inr 0
      else
        let lastCol = max (getLastColumn sh) 1 in
        case getRange 1 1 lastRow lastCol of
          Inl e \<Rightarrow> Inl e
        | Inr rg \<Rightarrow> (let data = getValues sh rg in Inr (scanRows data (length data))))"

section \<open>\<open>getOrCreateTrackingColumn\<close>\<close>

text \<open>The search of the header row; the result is the source's \<open>i + 1\<close>.\<close>

fun findHeader :: "jsval list \<Rightarrow> nat \<Rightarrow> nat option" where
  "findHeader [] i = None"
| "findHeader (h # hs) i =
     (if h = JStr SA_TRACKING_COL then Some (i + 1) else findHeader hs (i + 1))"

definition getOrCreateTrackingColumn :: "sheet \<Rightarrow> nat \<Rightarrow> error + (sheet \<times> nat)" where
  "getOrCreateTrackingColumn sh currentLastCol =
     (case getRange 1 1 1 currentLastCol of
        Inl e \<Rightarrow> Inl e
      | Inr rg \<Rightarrow>
          (let headerRow = getValues sh rg ! 0 in
           case findHeader headerRow 0 of
             Some i \<Rightarrow> Inr (sh, i)
           | None \<Rightarrow>
               (let newCol = currentLastCol + 1 in
                case getRange 1 newCol 1 1 of
                  Inl e \<Rightarrow> Inl e
                | Inr cell \<Rightarrow> Inr (setValue sh cell (JStr SA_TRACKING_COL), newCol))))"

section \<open>The driver\<close>

text \<open>
  The spreadsheet: the tab named \<open>SA_DATA_MASTER\<close>, when there is one, and the team
  tabs. A team tab is found by the name \<open>teamNum.toString()\<close>; printing a positive
  number is injective and never gives the name of the source tab, so the model finds the
  tab by the number itself. The other tabs are not touched and not modelled.

  The service may refuse the write into a team tab: a protected range, a sheet that is
  full. Whether it does is a matter of the tab, its cells and the range, and the field
  \<open>refuses\<close> says so; a refused \<open>setValues\<close> throws and writes nothing. The program
  never changes what is refused. Refusals that come and go from one run to the next, and
  refused writes into the source tab, are not modelled.
\<close>

record spreadsheet =
  source :: "sheet option"
  teams :: "jsnum \<Rightarrow> sheet option"
  refuses :: "jsnum \<Rightarrow> sheet \<Rightarrow> range \<Rightarrow> bool"

datatype log_entry = Warned nat jsval | Created jsnum | Pasted jsnum nat nat

record report =
  pushed :: nat
  skipped :: nat
  newSheets :: nat
  details :: "log_entry list"

datatype outcome = SheetNotFound | NoDataRows | InvalidTeamColumn | Done report | Returned

type_synonym teamtabs = "jsnum \<Rightarrow> sheet option"

text \<open>
  The body of the loop for the row \<open>row = allData[r]\<close>. An exception leaves the loop
  with the sheets as they are at that point.
\<close>

definition migrateRow ::
  "(jsnum \<Rightarrow> sheet \<Rightarrow> range \<Rightarrow> bool) \<Rightarrow> jsnum \<Rightarrow> nat \<Rightarrow> nat \<Rightarrow> jsval list
    \<Rightarrow> sheet \<times> teamtabs \<times> report
    \<Rightarrow> (error \<times> sheet \<times> teamtabs) + (sheet \<times> teamtabs \<times> report)" where
  "migrateRow refused teamColIndex trackingColIndex r row st =
     (case st of (src, tabs, rep) \<Rightarrow>
      let trackVal = js_nth row (trackingColIndex - 1) in
      if trackVal = JStr SA_TRACKING_COL \<or> trackVal = JBool True \<or> trackVal = JStr ''TRUE''
      then Inr (src, tabs, rep\<lparr>skipped := skipped rep + 1\<rparr>)
      else
        let rawTeam = js_index row (num_pred teamColIndex) in
        if rawTeam = JStr [] \<or> rawTeam = JNull \<or> rawTeam = JUndefined then Inr (src, tabs, rep)
        else
          let teamNum = Number_js rawTeam in
          if isNaN teamNum \<or> num_le0 teamNum
          then Inr (src, tabs, rep\<lparr>details := details rep @ [Warned (r + 1) rawTeam]\<rparr>)
          else
            let (tabs1, rep1, teamSheet) =
                  (case tabs teamNum of
                     Some sh \<Rightarrow> (tabs, rep, sh)
                   | None \<Rightarrow>
                       (tabs(teamNum \<mapsto> []),
                        rep\<lparr>newSheets := newSheets rep + 1,
                            details := details rep @ [Created teamNum]\<rparr>,
                        []))
            in
            (case findLastContentRow teamSheet of
               Inl e \<Rightarrow> Inl (e, src, tabs1)
             | Inr cursor \<Rightarrow>
                 (let pasteRow = cursor + SA_ROWS_GAP + 1;
                      dataToPaste = [take (trackingColIndex - 1) row]
                  in
                  (case getRange pasteRow 1 1 (length (dataToPaste ! 0)) of
                     Inl e \<Rightarrow> Inl (e, src, tabs1)
                   | Inr rg \<Rightarrow>
                       if refused teamNum teamSheet rg then Inl (WriteRefused, src, tabs1)
                       else
                         (let tabs2 = tabs1(teamNum \<mapsto> setValues teamSheet rg dataToPaste) in
                          (case getRange (r + 1) trackingColIndex 1 1 of
                             Inl e \<Rightarrow> Inl (e, src, tabs2)
                           | Inr cell \<Rightarrow>
                               Inr (setValue src cell (JStr SA_TRACKING_COL), tabs2,
                                    rep1\<lparr>pushed := pushed rep1 + 1,
                                         details := details rep1 @ [Pasted teamNum (r + 1) pasteRow]\<rparr>)))))))"

text \<open>The loop over \<open>allData[r]\<close>, \<open>allData[r + 1]\<close>, ... : \<open>rows\<close> is that rest of \<open>allData\<close>.\<close>

fun migrateRows ::
  "(jsnum \<Rightarrow> sheet \<Rightarrow> range \<Rightarrow> bool) \<Rightarrow> jsnum \<Rightarrow> nat \<Rightarrow> nat \<Rightarrow> jsval list list
    \<Rightarrow> sheet \<times> teamtabs \<times> report
    \<Rightarrow> (error \<times> sheet \<times> teamtabs) + (sheet \<times> teamtabs \<times> report)" where
  "migrateRows refused teamColIndex trackingColIndex r [] st = Inr st"
| "migrateRows refused teamColIndex trackingColIndex r (row # rows) st =
     (case migrateRow refused teamColIndex trackingColIndex r row st of
        Inl e \<Rightarrow> Inl e
      | Inr st' \<Rightarrow> migrateRows refused teamColIndex trackingColIndex (r + 1) rows st')"

definition emptyReport :: report where
  "emptyReport = \<lparr>pushed = 0, skipped = 0, newSheets = 0, details = []\<rparr>"

definition pushSADataToTeamSheets :: "spreadsheet \<Rightarrow> spreadsheet \<times> (error + outcome)" where
  "pushSADataToTeamSheets ss =
     (case source ss of
        None \<Rightarrow> (ss, Inr SheetNotFound)
      | Some src \<Rightarrow>
          (let lastCol = getLastColumn src; lastRow = getLastRow src in
           if lastRow < 2 then (ss, Inr NoDataRows)
           else
             (case resolveColumn SA_TEAM_COLUMN of
                None \<Rightarrow> (ss, Inr InvalidTeamColumn)
              | Some teamColIndex \<Rightarrow>
                  if teamColIndex = Finite 0 \<or> isNaN teamColIndex then (ss, Inr InvalidTeamColumn)
                  else
                    (case getOrCreateTrackingColumn src lastCol of
                       Inl e \<Rightarrow> (ss, Inl e)
                     | Inr (src1, trackingColIndex) \<Rightarrow>
                         (case getRange 1 1 lastRow trackingColIndex of
                            Inl e \<Rightarrow> (ss\<lparr>source := Some src1\<rparr>, Inl e)
                          | Inr rg \<Rightarrow>
                              (let allData = getValues src1 rg in
                               (case migrateRows (refuses ss) teamColIndex trackingColIndex 1
                                       (drop 1 allData) (src1, teams ss, emptyReport) of
                                  Inl (e, src2, tabs2) \<Rightarrow>
                                    (ss\<lparr>source := Some src2, teams := tabs2\<rparr>, Inl e)
                                | Inr (src2, tabs2, rep) \<Rightarrow>
                                    (ss\<lparr>source := Some src2, teams := tabs2\<rparr>, Inr (Done rep)))))))))"


section \<open>Auxiliary notions for the proofs\<close>

text \<open>Reading a row and a cell with the default for what the lists do not reach.\<close>

definition rowAt :: "sheet \<Rightarrow> nat \<Rightarrow> jsval list" where
  "rowAt sh i = (if i < length sh then sh ! i else [])"

definition cellOf :: "jsval list \<Rightarrow> nat \<Rightarrow> jsval" where
  "cellOf row j = (if j < length row then row ! j else JStr [])"

text \<open>The upper-case letters A to Z, the only characters a column name may hold.\<close>

definition isUpperLetter :: "int \<Rightarrow> bool" where
  "isUpperLetter k = (65 \<le> k \<and> k \<le> 90)"

text \<open>A tab with content in row 5 only, and blank rows down to row 10.\<close>

definition row5Tab :: sheet where
  "row5Tab = [[], [], [], [], [JStr [], JStr ''x''], [], [JStr []], [], [], []]"

text \<open>A source tab that has no tracking column yet.\<close>

definition plainSource :: sheet where
  "plainSource = [[JStr ''team'', JStr ''note''], [JNum (Finite 5), JStr ''a'']]"

text \<open>The tests of the loop body on a row, and the tab and cursor a row is pasted at.\<close>

definition alreadyPasted :: "nat \<Rightarrow> jsval list \<Rightarrow> bool" where
  "alreadyPasted t row =
     (js_nth row (t - 1) = JStr SA_TRACKING_COL \<or> js_nth row (t - 1) = JBool True \<or>
      js_nth row (t - 1) = JStr ''TRUE'')"

definition teamKey :: "jsnum \<Rightarrow> jsval list \<Rightarrow> jsval" where
  "teamKey tc row = js_index row (num_pred tc)"

definition emptyKey :: "jsval \<Rightarrow> bool" where
  "emptyKey k = (k = JStr [] \<or> k = JNull \<or> k = JUndefined)"

definition validTeam :: "jsval \<Rightarrow> bool" where
  "validTeam k = (\<not> isNaN (Number_js k) \<and> \<not> num_le0 (Number_js k))"

definition pushable :: "jsnum \<Rightarrow> nat \<Rightarrow> jsval list \<Rightarrow> bool" where
  "pushable tc t row =
     (\<not> alreadyPasted t row \<and> \<not> emptyKey (teamKey tc row) \<and> validTeam (teamKey tc row))"

definition tabOf :: "teamtabs \<Rightarrow> jsnum \<Rightarrow> sheet" where
  "tabOf tabs n = (case tabs n of Some sh \<Rightarrow> sh | None \<Rightarrow> [])"

definition cursorOf :: "sheet \<Rightarrow> nat" where
  "cursorOf sh = (case findLastContentRow sh of Inr n \<Rightarrow> n | Inl e \<Rightarrow> 0)"

definition withTab :: "teamtabs \<Rightarrow> jsnum \<Rightarrow> teamtabs" where
  "withTab tabs n = (case tabs n of Some sh \<Rightarrow> tabs | None \<Rightarrow> tabs(n \<mapsto> []))"

definition withTabReport :: "teamtabs \<Rightarrow> jsnum \<Rightarrow> report \<Rightarrow> report" where
  "withTabReport tabs n rep =
     (case tabs n of
        Some sh \<Rightarrow> rep
      | None \<Rightarrow> rep\<lparr>newSheets := newSheets rep + 1, details := details rep @ [Created n]\<rparr>)"

text \<open>
  The range a row is pasted into, whether the paste fails (the range has no column, or
  the service refuses the write), and the exception it fails with.
\<close>

definition pasteRange :: "teamtabs \<Rightarrow> jsnum \<Rightarrow> nat \<Rightarrow> jsval list \<Rightarrow> range" where
  "pasteRange tabs n t row =
     \<lparr>rg_row = cursorOf (tabOf tabs n) + SA_ROWS_GAP + 1, rg_col = 1, rg_rows = 1,
      rg_cols = length (take (t - 1) row)\<rparr>"

definition blocked ::
  "(jsnum \<Rightarrow> sheet \<Rightarrow> range \<Rightarrow> bool) \<Rightarrow> jsnum \<Rightarrow> nat \<Rightarrow> jsval list \<Rightarrow> teamtabs \<Rightarrow> bool" where
  "blocked rf tc t row tabs =
     (take (t - 1) row = [] \<or>
      rf (Number_js (teamKey tc row)) (tabOf tabs (Number_js (teamKey tc row)))
        (pasteRange tabs (Number_js (teamKey tc row)) t row))"

definition blockError :: "nat \<Rightarrow> jsval list \<Rightarrow> error" where
  "blockError t row = (if take (t - 1) row = [] then RangeError else WriteRefused)"

text \<open>The team tabs after the paste of a row, and the relation that no cell with content changes.\<close>

definition stepTabs :: "jsnum \<Rightarrow> nat \<Rightarrow> jsval list \<Rightarrow> teamtabs \<Rightarrow> teamtabs" where
  "stepTabs tc t row tabs =
     tabs(Number_js (teamKey tc row) \<mapsto>
       writeRowAt (tabOf tabs (Number_js (teamKey tc row)))
         (cursorOf (tabOf tabs (Number_js (teamKey tc row))) + SA_ROWS_GAP + 1) 1 (take (t - 1) row))"

definition keeps :: "teamtabs \<Rightarrow> teamtabs \<Rightarrow> bool" where
  "keeps tabs tabs' =
     (\<forall>n sh r c. tabs n = Some sh \<and> hasContent (cellAt sh r c)
        \<longrightarrow> (\<exists>sh'. tabs' n = Some sh' \<and> cellAt sh' r c = cellAt sh r c))"



text \<open>The data rows of \<open>allData\<close>: the rows 2 to \<open>lastRow\<close>, columns 1 to \<open>t\<close>.\<close>

definition readRows :: "sheet \<Rightarrow> nat \<Rightarrow> nat \<Rightarrow> jsval list list" where
  "readRows sh lastRow t =
     drop 1 (getValues sh \<lparr>rg_row = 1, rg_col = 1, rg_rows = lastRow, rg_cols = t\<rparr>)"

text \<open>A service that refuses no write.\<close>

definition noRefusal :: "jsnum \<Rightarrow> sheet \<Rightarrow> range \<Rightarrow> bool" where
  "noRefusal n sh rg = False"

text \<open>A source with a valid row, a row with the key \<open>abc\<close>, a row without key and a valid row.\<close>

definition demoSource :: sheet where
  "demoSource =
     [[JStr ''team'', JStr ''note''],
      [JNum (Finite 5), JStr ''a''],
      [JStr ''abc'', JStr ''b''],
      [JStr [], JStr ''c''],
      [JStr ''7'', JStr ''d'']]"

definition demoBook :: spreadsheet where
  "demoBook = \<lparr>source = Some demoSource, teams = Map.empty, refuses = noRefusal\<rparr>"

text \<open>The count of pasted rows that an outcome reports.\<close>

definition pushedOf :: "error + outcome \<Rightarrow> nat option" where
  "pushedOf out = (case out of Inr (Done rep) \<Rightarrow> Some (pushed rep) | _ \<Rightarrow> None)"

text \<open>The report that the loop ends with.\<close>

definition reportOf ::
  "(error \<times> sheet \<times> teamtabs) + (sheet \<times> teamtabs \<times> report) \<Rightarrow> report option" where
  "reportOf res = (case res of Inr (src, tabs, rep) \<Rightarrow> Some rep | Inl e \<Rightarrow> None)"

text \<open>A source whose only data row has no key.\<close>

definition noKeyBook :: spreadsheet where
  "noKeyBook = \<lparr>source = Some [[JStr ''team'', JStr ''note''], [JStr [], JStr ''c'']],
                 teams = Map.empty, refuses = noRefusal\<rparr>"

text \<open>The tab of team 5 with content in row 5 only, so that the cursor is 5.\<close>

definition cursor5Tabs :: teamtabs where
  "cursor5Tabs = [Finite 5 \<mapsto> row5Tab]"

text \<open>A service that refuses every write below row 10 of a tab, as a sheet that is full does.\<close>

definition fullTab :: "jsnum \<Rightarrow> sheet \<Rightarrow> range \<Rightarrow> bool" where
  "fullTab n sh rg = (10 < rg_row rg)"




section \<open>Properties of the sheet operations\<close>

lemma length_padTo: "length (padTo n x xs) = max (length xs) n"
  by (simp add: padTo_def)

lemma nth_padTo: "i < max (length xs) n \<Longrightarrow> padTo n x xs ! i = (if i < length xs then xs ! i else x)"
  by (auto simp: padTo_def nth_append)

lemma length_writeCells: "length (writeCells c vals row) = max (length row) (c - 1 + length vals)"
  by (auto simp: writeCells_def Let_def length_padTo)

lemma nth_writeCells:
  "j < max (length row) (c - 1 + length vals) \<Longrightarrow>
   writeCells c vals row ! j =
     (if c - 1 \<le> j \<and> j < c - 1 + length vals then vals ! (j - (c - 1))
      else if j < length row then row ! j else JStr [])"
  by (auto simp: writeCells_def Let_def length_padTo nth_padTo nth_append)

lemma length_writeRowAt: "1 \<le> r \<Longrightarrow> length (writeRowAt sh r c vals) = max (length sh) r"
  by (simp add: writeRowAt_def Let_def length_padTo)

lemma nth_writeRowAt:
  "1 \<le> r \<Longrightarrow> i < max (length sh) r \<Longrightarrow>
   writeRowAt sh r c vals ! i =
     (if i = r - 1 then writeCells c vals (if i < length sh then sh ! i else [])
      else if i < length sh then sh ! i else [])"
  by (auto simp: writeRowAt_def Let_def length_padTo nth_padTo nth_list_update)

lemma cellAt_alt: "cellAt sh r c = (if r = 0 \<or> c = 0 then JStr [] else cellOf (rowAt sh (r - 1)) (c - 1))"
  by (cases r; cases c) (auto simp: cellAt_def rowAt_def cellOf_def)

lemma cellOf_writeCells:
  "cellOf (writeCells c vals row) j =
     (if c - 1 \<le> j \<and> j < c - 1 + length vals then vals ! (j - (c - 1)) else cellOf row j)"
proof (cases "j < max (length row) (c - 1 + length vals)")
  case True
  then show ?thesis
    by (simp add: cellOf_def length_writeCells nth_writeCells)
next
  case False
  then have "\<not> j < length row" "\<not> j < c - 1 + length vals" by auto
  with False show ?thesis
    by (simp add: cellOf_def length_writeCells)
qed

lemma rowAt_writeRowAt:
  assumes "1 \<le> r"
  shows "rowAt (writeRowAt sh r c vals) i =
     (if i = r - 1 then writeCells c vals (rowAt sh i) else rowAt sh i)"
proof (cases "i < max (length sh) r")
  case True
  then show ?thesis using assms
    by (simp add: rowAt_def length_writeRowAt nth_writeRowAt)
next
  case False
  then show ?thesis using assms
    by (auto simp add: rowAt_def length_writeRowAt)
qed

lemma cellAt_writeRowAt:
  assumes "1 \<le> r" "1 \<le> c"
  shows "cellAt (writeRowAt sh r c vals) r' c' =
     (if r' = r \<and> c \<le> c' \<and> c' < c + length vals then vals ! (c' - c) else cellAt sh r' c')"
proof (cases "r' = 0 \<or> c' = 0")
  case True
  then show ?thesis using assms by (auto simp: cellAt_alt)
next
  case False
  then have "cellAt (writeRowAt sh r c vals) r' c' =
      cellOf (if r' - 1 = r - 1 then writeCells c vals (rowAt sh (r' - 1)) else rowAt sh (r' - 1)) (c' - 1)"
    using assms by (simp add: cellAt_alt rowAt_writeRowAt)
  also have "\<dots> = (if r' = r \<and> c \<le> c' \<and> c' < c + length vals then vals ! (c' - c) else cellAt sh r' c')"
  proof (cases "r' = r")
    case True
    have "c' - 1 - (c - 1) = c' - c" using assms False by arith
    moreover have "(c - 1 \<le> c' - 1 \<and> c' - 1 < c - 1 + length vals) = (c \<le> c' \<and> c' < c + length vals)"
      using assms False by arith
    ultimately show ?thesis using True False
      by (simp add: cellOf_writeCells cellAt_alt)
  next
    case False2: False
    then have "r' - 1 \<noteq> r - 1" using assms False by arith
    then show ?thesis using False False2 by (simp add: cellAt_alt)
  qed
  finally show ?thesis .
qed

lemma setValues_single: "setValues sh rg [vals] = writeRowAt sh (rg_row rg) (rg_col rg) vals"
  by (simp add: setValues_def)

lemma getRange_ok:
  "1 \<le> r \<Longrightarrow> 1 \<le> c \<Longrightarrow> 1 \<le> nr \<Longrightarrow> 1 \<le> nc \<Longrightarrow>
   getRange r c nr nc = Inr \<lparr>rg_row = r, rg_col = c, rg_rows = nr, rg_cols = nc\<rparr>"
  by (simp add: getRange_def)

lemma getRange_Inr:
  "getRange r c nr nc = Inr rg \<Longrightarrow>
   1 \<le> r \<and> 1 \<le> c \<and> 1 \<le> nr \<and> 1 \<le> nc \<and> rg = \<lparr>rg_row = r, rg_col = c, rg_rows = nr, rg_cols = nc\<rparr>"
  by (auto simp: getRange_def split: if_splits)

lemma setValue_cell:
  "setValue sh \<lparr>rg_row = r, rg_col = c, rg_rows = 1, rg_cols = 1\<rparr> v = writeRowAt sh r c [v]"
  by (simp add: setValue_def setValues_def)

lemma length_getValues: "length (getValues sh rg) = rg_rows rg"
  by (simp add: getValues_def)

lemma nth_getValues:
  "i < rg_rows rg \<Longrightarrow>
   getValues sh rg ! i = map (cellAt sh (rg_row rg + i)) [rg_col rg ..< rg_col rg + rg_cols rg]"
  by (simp add: getValues_def del: upt_Suc)

lemma length_le_getLastColumn: "row \<in> set sh \<Longrightarrow> length row \<le> getLastColumn sh"
  by (induction sh) (auto simp: getLastColumn_def)

lemma cellAt_extent:
  assumes "cellAt sh r c \<noteq> JStr []"
  shows "1 \<le> r \<and> r \<le> getLastRow sh \<and> 1 \<le> c \<and> c \<le> getLastColumn sh"
proof -
  from assms have a: "1 \<le> r" "r \<le> length sh" "1 \<le> c" "c \<le> length (sh ! (r - 1))"
    by (auto simp: cellAt_def split: if_splits)
  then have "sh ! (r - 1) \<in> set sh" by simp
  then have "length (sh ! (r - 1)) \<le> getLastColumn sh" by (rule length_le_getLastColumn)
  with a show ?thesis by (simp add: getLastRow_def)
qed

lemma hasContent_extent:
  "hasContent (cellAt sh r c) \<Longrightarrow> 1 \<le> r \<and> r \<le> getLastRow sh \<and> 1 \<le> c \<and> c \<le> getLastColumn sh"
  by (rule cellAt_extent) (simp add: hasContent_def)

lemma scanRows_le: "scanRows data n \<le> n"
  by (induction n) auto

lemma scanRows_pos: "0 < scanRows data n \<Longrightarrow> list_ex hasContent (data ! (scanRows data n - 1))"
  by (induction n) auto

lemma scanRows_above: "scanRows data n < k \<Longrightarrow> k \<le> n \<Longrightarrow> \<not> list_ex hasContent (data ! (k - 1))"
proof (induction n)
  case 0
  then show ?case by simp
next
  case (Suc n)
  show ?case
  proof (cases "list_ex hasContent (data ! n)")
    case True
    with Suc.prems show ?thesis by simp
  next
    case False
    show ?thesis
    proof (cases "k = Suc n")
      case True
      with False show ?thesis by simp
    next
      case False2: False
      with Suc.prems have "k \<le> n" by simp
      moreover from False Suc.prems have "scanRows data n < k" by simp
      ultimately show ?thesis by (rule Suc.IH[rotated])
    qed
  qed
qed

lemma row_ex_content:
  assumes "1 \<le> r" "getLastColumn sh \<le> w"
  shows "list_ex hasContent (map (cellAt sh r) [1 ..< 1 + w]) = (\<exists>c. hasContent (cellAt sh r c))"
proof
  assume "list_ex hasContent (map (cellAt sh r) [1 ..< 1 + w])"
  then show "\<exists>c. hasContent (cellAt sh r c)" by (auto simp: list_ex_iff)
next
  assume "\<exists>c. hasContent (cellAt sh r c)"
  then obtain c where c: "hasContent (cellAt sh r c)" by blast
  from hasContent_extent[OF c] assms have "c \<in> set [1 ..< 1 + w]" by (simp del: upt_Suc)
  with c show "list_ex hasContent (map (cellAt sh r) [1 ..< 1 + w])"
    unfolding list_ex_iff by (auto simp del: upt_Suc)
qed

lemma findLastContentRow_char:
  "\<exists>n. findLastContentRow sh = Inr n \<and> n \<le> getLastRow sh \<and>
       (0 < n \<longrightarrow> (\<exists>c. hasContent (cellAt sh n c))) \<and>
       (\<forall>r c. n < r \<longrightarrow> \<not> hasContent (cellAt sh r c))"
proof (cases "getLastRow sh = 0")
  case True
  then have "findLastContentRow sh = Inr 0" by (simp add: findLastContentRow_def)
  moreover have "\<not> hasContent (cellAt sh r c)" for r c
    using hasContent_extent[of sh r c] True by auto
  ultimately show ?thesis by simp
next
  case False
  define w where "w = max (getLastColumn sh) 1"
  define rg where "rg = \<lparr>rg_row = 1, rg_col = 1, rg_rows = getLastRow sh, rg_cols = w\<rparr>"
  define data where "data = getValues sh rg"
  define n where "n = scanRows data (length data)"
  have len: "length data = getLastRow sh" by (simp add: data_def length_getValues rg_def)
  have row: "data ! (k - 1) = map (cellAt sh k) [1 ..< 1 + w]" if "1 \<le> k" "k \<le> getLastRow sh" for k
    using that by (simp add: data_def nth_getValues rg_def del: upt_Suc)
  have wge: "getLastColumn sh \<le> w" by (simp add: w_def)
  have res: "findLastContentRow sh = Inr n"
    using False by (simp add: findLastContentRow_def Let_def getRange_def w_def rg_def data_def n_def)
  have nle: "n \<le> getLastRow sh" using scanRows_le[of data "length data"] by (simp add: n_def len)
  have pos: "\<exists>c. hasContent (cellAt sh n c)" if "0 < n"
  proof -
    from that have "list_ex hasContent (data ! (n - 1))" unfolding n_def by (rule scanRows_pos)
    with row[of n] that nle row_ex_content[OF _ wge, of n] show ?thesis by (simp del: upt_Suc)
  qed
  have above: "\<not> hasContent (cellAt sh r c)" if "n < r" for r c
  proof (cases "r \<le> getLastRow sh")
    case True
    with that have "\<not> list_ex hasContent (data ! (r - 1))"
      using scanRows_above[of data "length data" r] by (simp add: n_def len)
    with row[of r] that True row_ex_content[OF _ wge, of r] have "\<not> (\<exists>c. hasContent (cellAt sh r c))"
      by (simp del: upt_Suc)
    then show ?thesis by blast
  next
    case False
    then show ?thesis using hasContent_extent[of sh r c] by auto
  qed
  from res nle pos above show ?thesis by blast
qed

section \<open>Column references\<close>

lemma columnLetters_None:
  "list_ex (\<lambda>k. \<not> isUpperLetter k) u \<Longrightarrow> columnLetters u acc = None"
  by (induction u arbitrary: acc) (auto simp: isUpperLetter_def Let_def)

text \<open>
  C4, as the code has it. \<open>resolveColumn\<close> maps \<open>"A"\<close> to 1, \<open>"Z"\<close> to 26, \<open>"AA"\<close> to 27
  and \<open>"3"\<close> to 3, and returns \<open>null\<close> for \<open>""\<close> and \<open>"A1"\<close>. It returns \<open>null\<close> for
  every number that is zero or negative, and for every string that, once trimmed and put
  in upper case, is not all digits and holds a character outside A to Z. The reference is
  trimmed and put in upper case before anything else is looked at: two strings that are
  not empty and agree after that resolve alike, so white space around a column name and
  small letters are accepted.
\<close>

theorem resolveColumn_cases:
  "resolveColumn (JStr ''A'') = Some (Finite 1) \<and>
   resolveColumn (JStr ''Z'') = Some (Finite 26) \<and>
   resolveColumn (JStr ''AA'') = Some (Finite 27) \<and>
   resolveColumn (JStr ''3'') = Some (Finite 3) \<and>
   resolveColumn (JStr []) = None \<and>
   resolveColumn (JStr ''A1'') = None \<and>
   (num_le0 n \<longrightarrow> resolveColumn (JNum n) = None) \<and>
   (\<not> allDigitUnits (toUpperCase (trim s)) \<and>
    list_ex (\<lambda>k. \<not> isUpperLetter k) (toUpperCase (trim s))
      \<longrightarrow> resolveColumn (JStr s) = None) \<and>
   (s1 \<noteq> [] \<and> s2 \<noteq> [] \<and> toUpperCase (trim s1) = toUpperCase (trim s2)
      \<longrightarrow> resolveColumn (JStr s1) = resolveColumn (JStr s2))"
proof -
  have ex: "resolveColumn (JStr ''A'') = Some (Finite 1)"
    "resolveColumn (JStr ''Z'') = Some (Finite 26)"
    "resolveColumn (JStr ''AA'') = Some (Finite 27)"
    "resolveColumn (JStr ''3'') = Some (Finite 3)"
    "resolveColumn (JStr []) = None"
    "resolveColumn (JStr ''A1'') = None"
    by code_simp+
  have num: "resolveColumn (JNum n) = None" if "num_le0 n"
    using that by (cases n) (auto simp: resolveColumn_def)
  have str: "resolveColumn (JStr s) = None"
    if "\<not> allDigitUnits (toUpperCase (trim s))"
      "list_ex (\<lambda>k. \<not> isUpperLetter k) (toUpperCase (trim s))"
    using that by (auto simp: resolveColumn_def Let_def columnLetters_None)
  have same: "resolveColumn (JStr s1) = resolveColumn (JStr s2)"
    if "s1 \<noteq> []" "s2 \<noteq> []" "toUpperCase (trim s1) = toUpperCase (trim s2)"
    using that by (simp add: resolveColumn_def Let_def)
  from ex num str same show ?thesis by blast
qed

theorem resolveColumn_cases_witness:
  "resolveColumn (JNum (Finite (- 2))) = None \<and>
   resolveColumn (JStr '' a1 '') = None \<and>
   resolveColumn (JStr '' aa '') = resolveColumn (JStr ''AA'')"
proof -
  have n: "num_le0 (Finite (- 2))" by simp
  have s: "\<not> allDigitUnits (toUpperCase (trim '' a1 ''))"
    "list_ex (\<lambda>k. \<not> isUpperLetter k) (toUpperCase (trim '' a1 ''))"
    by code_simp+
  have e: "'' aa '' \<noteq> []" "''AA'' \<noteq> []" "toUpperCase (trim '' aa '') = toUpperCase (trim ''AA'')"
    by code_simp+
  from resolveColumn_cases [of "Finite (- 2)" "'' a1 ''" "'' aa ''" "''AA''"] n s e
  show ?thesis by blast
qed

text \<open>
  The white space that is trimmed includes the no-break space, and the sharp s is two
  letters S in upper case: a no-break space before \<open>A\<close> gives column 1, the sharp s
  column 513 (SS).
\<close>

lemma resolveColumn_units:
  "resolveColumn (JStr [CHR 0xA0, CHR ''A'']) = Some (Finite 1) \<and>
   resolveColumn (JStr [CHR 0xDF]) = Some (Finite 513) \<and>
   resolveColumn (JStr ''aa'') = Some (Finite 27) \<and>
   resolveColumn (JNum (Finite 3)) = Some (Finite 3)"
  by code_simp

text \<open>
  C4 as stated fails: the string \<open>" A"\<close> holds a character that is not a letter, the
  space, and resolves to column 1.
\<close>

theorem resolveColumn_trims_counterexample:
  "resolveColumn (JStr '' A'') = Some (Finite 1)"
  by code_simp

section \<open>The append cursor\<close>

text \<open>
  C3. \<open>findLastContentRow\<close> never throws, and it returns \<open>n\<close> exactly when \<open>n\<close> is the
  last row of the tab that holds a cell with content, or 0 when no row does: rows that
  the tab reports below it, blank but formatted, do not count. A tab with content in
  row 5 only and blank rows 6 to 10 gives 5; a tab without content gives 0.
\<close>

theorem findLastContentRow_last_row:
  "(findLastContentRow sh = Inr n) =
   ((n = 0 \<or> (\<exists>c. hasContent (cellAt sh n c))) \<and> (\<forall>r c. n < r \<longrightarrow> \<not> hasContent (cellAt sh r c)))"
proof -
  obtain m where m: "findLastContentRow sh = Inr m"
    "0 < m \<longrightarrow> (\<exists>c. hasContent (cellAt sh m c))"
    "\<forall>r c. m < r \<longrightarrow> \<not> hasContent (cellAt sh r c)"
    using findLastContentRow_char[of sh] by blast
  show ?thesis
  proof
    assume "findLastContentRow sh = Inr n"
    with m have "n = m" by simp
    with m show "(n = 0 \<or> (\<exists>c. hasContent (cellAt sh n c))) \<and> (\<forall>r c. n < r \<longrightarrow> \<not> hasContent (cellAt sh r c))"
      by auto
  next
    assume a: "(n = 0 \<or> (\<exists>c. hasContent (cellAt sh n c))) \<and> (\<forall>r c. n < r \<longrightarrow> \<not> hasContent (cellAt sh r c))"
    have "\<not> m < n"
    proof
      assume "m < n"
      with a m(3) show False by auto
    qed
    moreover have "\<not> n < m"
    proof
      assume "n < m"
      with a m(2) show False by auto
    qed
    ultimately have "n = m" by simp
    with m show "findLastContentRow sh = Inr n" by simp
  qed
qed

theorem findLastContentRow_last_row_witness:
  "findLastContentRow row5Tab = Inr 5 \<and> findLastContentRow [] = Inr 0 \<and>
   hasContent (cellAt row5Tab 5 2) \<and> \<not> hasContent (cellAt row5Tab 8 1)"
proof -
  have e: "findLastContentRow row5Tab = Inr 5" by code_simp
  with findLastContentRow_last_row [of row5Tab 5]
  have "\<forall>r c. 5 < r \<longrightarrow> \<not> hasContent (cellAt row5Tab r c)" by simp
  then have a: "\<not> hasContent (cellAt row5Tab 8 1)" by simp
  have b: "hasContent (cellAt row5Tab 5 2)" by code_simp
  have "\<forall>r c. 0 < r \<longrightarrow> \<not> hasContent (cellAt [] r c)" by (simp add: cellAt_def hasContent_def)
  with findLastContentRow_last_row [of "[]" 0] have "findLastContentRow [] = Inr 0" by simp
  with e a b show ?thesis by simp
qed

text \<open>
  C10. The cursor lies at or below a row \<open>r\<close> exactly when some cell in row \<open>r\<close> or below
  differs from the empty string, \<open>null\<close> and \<open>undefined\<close>: nothing else makes a cell
  empty for the scan. A cell that holds the number 0, the boolean \<open>false\<close> or a string of
  white space is content and sets the cursor.
\<close>

theorem cursor_content_test:
  assumes "1 \<le> r"
  shows "((\<exists>n. findLastContentRow sh = Inr n \<and> r \<le> n) =
          (\<exists>r' c. r \<le> r' \<and> cellAt sh r' c \<noteq> JStr [] \<and> cellAt sh r' c \<noteq> JNull \<and> cellAt sh r' c \<noteq> JUndefined)) \<and>
         findLastContentRow [[JNum (Finite 0)]] = Inr 1 \<and>
         findLastContentRow [[JBool False]] = Inr 1 \<and>
         findLastContentRow [[JStr '' '']] = Inr 1 \<and>
         findLastContentRow [[JStr []]] = Inr 0 \<and>
         findLastContentRow [[JNull]] = Inr 0 \<and>
         findLastContentRow [[JUndefined]] = Inr 0"
proof -
  obtain m where m: "findLastContentRow sh = Inr m"
    "0 < m \<longrightarrow> (\<exists>c. hasContent (cellAt sh m c))"
    "\<forall>r c. m < r \<longrightarrow> \<not> hasContent (cellAt sh r c)"
    using findLastContentRow_char[of sh] by blast
  have "(\<exists>n. findLastContentRow sh = Inr n \<and> r \<le> n) = (\<exists>r' c. r \<le> r' \<and> hasContent (cellAt sh r' c))"
  proof
    assume "\<exists>n. findLastContentRow sh = Inr n \<and> r \<le> n"
    with m have "r \<le> m" by auto
    with assms m(2) show "\<exists>r' c. r \<le> r' \<and> hasContent (cellAt sh r' c)" by auto
  next
    assume "\<exists>r' c. r \<le> r' \<and> hasContent (cellAt sh r' c)"
    then obtain r' c where "r \<le> r'" "hasContent (cellAt sh r' c)" by blast
    with m(3) have "r \<le> m" by (meson le_trans not_le_imp_less)
    with m show "\<exists>n. findLastContentRow sh = Inr n \<and> r \<le> n" by simp
  qed
  moreover have "findLastContentRow [[JNum (Finite 0)]] = Inr 1"
    "findLastContentRow [[JBool False]] = Inr 1"
    "findLastContentRow [[JStr '' '']] = Inr 1"
    "findLastContentRow [[JStr []]] = Inr 0"
    "findLastContentRow [[JNull]] = Inr 0"
    "findLastContentRow [[JUndefined]] = Inr 0"
    by code_simp+
  ultimately show ?thesis by (simp add: hasContent_def)
qed

theorem cursor_content_test_witness:
  "(1::nat) \<le> 2 \<and> findLastContentRow [[JStr ''x''], [JStr [], JNum (Finite 0)], [JNull]] = Inr 2"
proof -
  have e: "findLastContentRow [[JStr ''x''], [JStr [], JNum (Finite 0)], [JNull]] = Inr 2" by code_simp
  have h: "(1::nat) \<le> 2" by simp
  from cursor_content_test [OF h, of "[[JStr ''x''], [JStr [], JNum (Finite 0)], [JNull]]"] e
  show ?thesis by simp
qed

section \<open>The tracking column\<close>

lemma findHeader_first:
  "j < length hs \<Longrightarrow> hs ! j = JStr SA_TRACKING_COL \<Longrightarrow> (\<forall>j'<j. hs ! j' \<noteq> JStr SA_TRACKING_COL)
   \<Longrightarrow> findHeader hs i = Some (i + j + 1)"
proof (induction hs arbitrary: i j)
  case Nil
  then show ?case by simp
next
  case (Cons h hs)
  show ?case
  proof (cases j)
    case 0
    with Cons.prems show ?thesis by simp
  next
    case (Suc k)
    with Cons.prems have h: "h \<noteq> JStr SA_TRACKING_COL" by auto
    from Suc Cons.prems have "k < length hs" "hs ! k = JStr SA_TRACKING_COL"
      "\<forall>j'<k. hs ! j' \<noteq> JStr SA_TRACKING_COL" by auto
    then have "findHeader hs (i + 1) = Some (i + 1 + k + 1)" by (rule Cons.IH)
    with h Suc show ?thesis by simp
  qed
qed

lemma findHeader_Some:
  "findHeader hs i = Some k \<Longrightarrow>
   \<exists>j<length hs. k = i + j + 1 \<and> hs ! j = JStr SA_TRACKING_COL \<and> (\<forall>j'<j. hs ! j' \<noteq> JStr SA_TRACKING_COL)"
proof (induction hs arbitrary: i)
  case Nil
  then show ?case by simp
next
  case (Cons h hs)
  show ?case
  proof (cases "h = JStr SA_TRACKING_COL")
    case True
    with Cons.prems show ?thesis by auto
  next
    case False
    with Cons.prems have "findHeader hs (i + 1) = Some k" by simp
    from Cons.IH[OF this] obtain j where j: "j < length hs" "k = i + 1 + j + 1"
      "hs ! j = JStr SA_TRACKING_COL" "\<forall>j'<j. hs ! j' \<noteq> JStr SA_TRACKING_COL" by blast
    have "\<forall>j'<Suc j. (h # hs) ! j' \<noteq> JStr SA_TRACKING_COL"
      using False j(4) by (auto simp: nth_Cons split: nat.splits)
    with j show ?thesis by (intro exI[of _ "Suc j"]) simp
  qed
qed

lemma findHeader_None: "findHeader hs i = None \<Longrightarrow> JStr SA_TRACKING_COL \<notin> set hs"
  by (induction hs arbitrary: i) (auto split: if_splits)

lemma headerRow_read:
  assumes "1 \<le> n"
  shows "getRange 1 1 1 n = Inr \<lparr>rg_row = 1, rg_col = 1, rg_rows = 1, rg_cols = n\<rparr> \<and>
         getValues sh \<lparr>rg_row = 1, rg_col = 1, rg_rows = 1, rg_cols = n\<rparr> ! 0 = map (cellAt sh 1) [1 ..< 1 + n]"
  using assms by (simp_all add: getRange_def getValues_def del: upt_Suc)

lemma nth_headerRow: "j < n \<Longrightarrow> map (cellAt sh r) [1 ..< 1 + n] ! j = cellAt sh r (j + 1)"
  by (simp del: upt_Suc)

lemma tracking_name_nonempty: "SA_TRACKING_COL \<noteq> []"
  by (simp add: SA_TRACKING_COL_def)

lemma getOrCreate_found:
  assumes "1 \<le> i" "i \<le> n" "cellAt sh 1 i = JStr SA_TRACKING_COL"
    and "\<forall>j. 1 \<le> j \<and> j < i \<longrightarrow> cellAt sh 1 j \<noteq> JStr SA_TRACKING_COL"
  shows "getOrCreateTrackingColumn sh n = Inr (sh, i)"
proof -
  define hs where "hs = map (cellAt sh 1) [1 ..< 1 + n]"
  have n: "1 \<le> n" using assms by simp
  have len: "length hs = n" by (simp add: hs_def del: upt_Suc)
  have nth: "hs ! j = cellAt sh 1 (j + 1)" if "j < n" for j
    using that unfolding hs_def by (rule nth_headerRow)
  have "i - 1 < length hs" using assms len by simp
  moreover have "hs ! (i - 1) = JStr SA_TRACKING_COL" using assms nth[of "i - 1"] by simp
  moreover have "\<forall>j'<i - 1. hs ! j' \<noteq> JStr SA_TRACKING_COL"
  proof (intro allI impI)
    fix j' assume "j' < i - 1"
    then have "j' < n" "1 \<le> j' + 1 \<and> j' + 1 < i" using assms by auto
    with assms(4) nth[of j'] show "hs ! j' \<noteq> JStr SA_TRACKING_COL" by simp
  qed
  ultimately have "findHeader hs 0 = Some (0 + (i - 1) + 1)" by (rule findHeader_first)
  then have "findHeader hs 0 = Some i" using assms by simp
  then show ?thesis
    using headerRow_read[OF n, of sh]
    by (simp add: getOrCreateTrackingColumn_def hs_def Let_def del: upt_Suc)
qed

lemma getOrCreate_Inr:
  assumes "getOrCreateTrackingColumn sh n = Inr (sh1, t)"
  shows "1 \<le> n \<and> 1 \<le> t \<and> cellAt sh1 1 t = JStr SA_TRACKING_COL \<and>
         (\<forall>j. 1 \<le> j \<and> j < t \<longrightarrow> cellAt sh1 1 j \<noteq> JStr SA_TRACKING_COL) \<and>
         (sh1 = sh \<and> t \<le> n \<or>
          sh1 = writeRowAt sh 1 (n + 1) [JStr SA_TRACKING_COL] \<and> t = n + 1)"
proof -
  have n: "1 \<le> n" using assms
    by (cases "1 \<le> n") (auto simp: getOrCreateTrackingColumn_def getRange_def)
  define hs where "hs = map (cellAt sh 1) [1 ..< 1 + n]"
  have len: "length hs = n" by (simp add: hs_def del: upt_Suc)
  have nth: "hs ! j = cellAt sh 1 (j + 1)" if "j < n" for j
    using that unfolding hs_def by (rule nth_headerRow)
  show ?thesis
  proof (cases "findHeader hs 0")
    case None
    then have "getOrCreateTrackingColumn sh n = Inr (writeRowAt sh 1 (n + 1) [JStr SA_TRACKING_COL], n + 1)"
      using headerRow_read[OF n, of sh]
      by (simp add: getOrCreateTrackingColumn_def hs_def Let_def getRange_def setValue_def
          setValues_def del: upt_Suc)
    with assms have res: "sh1 = writeRowAt sh 1 (n + 1) [JStr SA_TRACKING_COL]" "t = n + 1"
      by auto
    from None have notin: "JStr SA_TRACKING_COL \<notin> set hs" by (rule findHeader_None)
    have old: "cellAt sh 1 j \<noteq> JStr SA_TRACKING_COL" if "1 \<le> j" "j \<le> n" for j
    proof -
      from that have "hs ! (j - 1) \<in> set hs" using len by simp
      with notin nth[of "j - 1"] that show ?thesis by auto
    qed
    have new: "cellAt sh1 1 j = (if j = n + 1 then JStr SA_TRACKING_COL else cellAt sh 1 j)" for j
      unfolding res by (simp add: cellAt_writeRowAt) 
    from new old res n show ?thesis by auto
  next
    case (Some k)
    then have "getOrCreateTrackingColumn sh n = Inr (sh, k)"
      using headerRow_read[OF n, of sh]
      by (simp add: getOrCreateTrackingColumn_def hs_def Let_def del: upt_Suc)
    with assms have res: "sh1 = sh" "t = k"
      by auto
    from findHeader_Some[OF Some] obtain j where j: "j < length hs" "k = j + 1"
      "hs ! j = JStr SA_TRACKING_COL" "\<forall>j'<j. hs ! j' \<noteq> JStr SA_TRACKING_COL" by auto
    have "cellAt sh 1 t = JStr SA_TRACKING_COL" using j nth[of j] len res by simp
    moreover have "cellAt sh 1 j' \<noteq> JStr SA_TRACKING_COL" if "1 \<le> j'" "j' < t" for j'
    proof -
      from that j res have "j' - 1 < j" by simp
      with j(4) have "hs ! (j' - 1) \<noteq> JStr SA_TRACKING_COL" by simp
      moreover have "j' - 1 < n" using that j res len by simp
      ultimately show ?thesis using nth[of "j' - 1"] that by simp
    qed
    ultimately show ?thesis using res j len n by auto
  qed
qed

text \<open>
  C8. When the header row holds the reserved name, first in column \<open>i\<close> within the
  columns searched, the call returns \<open>i\<close> and the sheet as it is. When a call returns
  column \<open>t\<close>, the header of the resulting sheet holds the name in column \<open>t\<close>, which
  lies within the reported columns, and every later call that searches at least \<open>t\<close>
  columns returns \<open>t\<close> again and leaves the sheet as it is: no second column is made.
\<close>

theorem getOrCreateTrackingColumn_idempotent:
  "(1 \<le> i \<and> i \<le> n \<and> cellAt sh 1 i = JStr SA_TRACKING_COL \<and>
    (\<forall>j. 1 \<le> j \<and> j < i \<longrightarrow> cellAt sh 1 j \<noteq> JStr SA_TRACKING_COL)
      \<longrightarrow> getOrCreateTrackingColumn sh n = Inr (sh, i)) \<and>
   (getOrCreateTrackingColumn sh n = Inr (sh1, t)
      \<longrightarrow> cellAt sh1 1 t = JStr SA_TRACKING_COL \<and> t \<le> getLastColumn sh1 \<and>
          (\<forall>n'. t \<le> n' \<longrightarrow> getOrCreateTrackingColumn sh1 n' = Inr (sh1, t)))"
proof (intro conjI impI)
  assume "1 \<le> i \<and> i \<le> n \<and> cellAt sh 1 i = JStr SA_TRACKING_COL \<and>
    (\<forall>j. 1 \<le> j \<and> j < i \<longrightarrow> cellAt sh 1 j \<noteq> JStr SA_TRACKING_COL)"
  then show "getOrCreateTrackingColumn sh n = Inr (sh, i)"
    using getOrCreate_found by blast
next
  assume a: "getOrCreateTrackingColumn sh n = Inr (sh1, t)"
  from getOrCreate_Inr[OF a] have t: "1 \<le> t" "cellAt sh1 1 t = JStr SA_TRACKING_COL"
    "\<forall>j. 1 \<le> j \<and> j < t \<longrightarrow> cellAt sh1 1 j \<noteq> JStr SA_TRACKING_COL" by auto
  show "cellAt sh1 1 t = JStr SA_TRACKING_COL" by (rule t(2))
  from t(2) have "cellAt sh1 1 t \<noteq> JStr []" by (simp add: tracking_name_nonempty)
  then show "t \<le> getLastColumn sh1" using cellAt_extent by blast
  show "\<forall>n'. t \<le> n' \<longrightarrow> getOrCreateTrackingColumn sh1 n' = Inr (sh1, t)"
    using getOrCreate_found[OF t(1) _ t(2) t(3)] by blast
qed

theorem getOrCreateTrackingColumn_idempotent_witness:
  "getOrCreateTrackingColumn plainSource 2 =
     Inr ([[JStr ''team'', JStr ''note'', JStr SA_TRACKING_COL], [JNum (Finite 5), JStr ''a'']], 3) \<and>
   getOrCreateTrackingColumn
     [[JStr ''team'', JStr ''note'', JStr SA_TRACKING_COL], [JNum (Finite 5), JStr ''a'']] 3 =
     Inr ([[JStr ''team'', JStr ''note'', JStr SA_TRACKING_COL], [JNum (Finite 5), JStr ''a'']], 3)"
proof -
  have e: "getOrCreateTrackingColumn plainSource 2 =
     Inr ([[JStr ''team'', JStr ''note'', JStr SA_TRACKING_COL], [JNum (Finite 5), JStr ''a'']], 3)"
    by code_simp
  with getOrCreateTrackingColumn_idempotent [of 1 2 plainSource "[[JStr ''team'', JStr ''note'', JStr SA_TRACKING_COL], [JNum (Finite 5), JStr ''a'']]" 3]
  show ?thesis by simp
qed

section \<open>The loop body and the loop\<close>

lemma findLastContentRow_cursorOf: "findLastContentRow sh = Inr (cursorOf sh)"
  using findLastContentRow_char[of sh] by (auto simp: cursorOf_def)

lemma migrateRow_skip:
  "alreadyPasted t row \<Longrightarrow>
   migrateRow rf tc t r row (src, tabs, rep) = Inr (src, tabs, rep\<lparr>skipped := skipped rep + 1\<rparr>)"
  by (simp add: migrateRow_def alreadyPasted_def Let_def)

lemma migrateRow_empty:
  "\<not> alreadyPasted t row \<Longrightarrow> emptyKey (teamKey tc row) \<Longrightarrow>
   migrateRow rf tc t r row (src, tabs, rep) = Inr (src, tabs, rep)"
  by (simp add: migrateRow_def alreadyPasted_def emptyKey_def teamKey_def Let_def)

lemma migrateRow_warn:
  "\<not> alreadyPasted t row \<Longrightarrow> \<not> emptyKey (teamKey tc row) \<Longrightarrow> \<not> validTeam (teamKey tc row) \<Longrightarrow>
   migrateRow rf tc t r row (src, tabs, rep) =
     Inr (src, tabs, rep\<lparr>details := details rep @ [Warned (r + 1) (teamKey tc row)]\<rparr>)"
  by (simp add: migrateRow_def alreadyPasted_def emptyKey_def teamKey_def validTeam_def Let_def)

lemma num_pred_one [simp]: "num_pred (Finite 1) = Finite 0"
  by (simp add: num_pred_def roundDouble_def)

lemma tabOf_withTab [simp]: "tabOf (withTab tabs n) n = tabOf tabs n"
  by (simp add: tabOf_def withTab_def split: option.splits)

lemma withTab_idem: "withTab (withTab tabs n) n = withTab tabs n"
  by (simp add: withTab_def split: option.splits)

lemma blocked_withTab:
  "blocked rf tc t row (withTab tabs (Number_js (teamKey tc row))) = blocked rf tc t row tabs"
  by (simp add: blocked_def pasteRange_def)

lemma migrateRow_blocked:
  assumes "pushable tc t row" "blocked rf tc t row tabs"
  shows "migrateRow rf tc t r row (src, tabs, rep) =
     Inl (blockError t row, src, withTab tabs (Number_js (teamKey tc row)))"
  using assms
  by (auto simp: migrateRow_def pushable_def alreadyPasted_def emptyKey_def teamKey_def validTeam_def
      Let_def findLastContentRow_cursorOf getRange_def withTab_def blocked_def blockError_def
      pasteRange_def tabOf_def split: option.splits)

lemma migrateRow_push:
  assumes "pushable tc t row" "\<not> blocked rf tc t row tabs"
  shows "migrateRow rf tc t r row (src, tabs, rep) =
     Inr (writeRowAt src (r + 1) t [JStr SA_TRACKING_COL],
          tabs(Number_js (teamKey tc row) \<mapsto>
            writeRowAt (tabOf tabs (Number_js (teamKey tc row)))
              (cursorOf (tabOf tabs (Number_js (teamKey tc row))) + SA_ROWS_GAP + 1) 1 (take (t - 1) row)),
          (withTabReport tabs (Number_js (teamKey tc row)) rep)
            \<lparr>pushed := pushed (withTabReport tabs (Number_js (teamKey tc row)) rep) + 1,
             details := details (withTabReport tabs (Number_js (teamKey tc row)) rep) @
               [Pasted (Number_js (teamKey tc row)) (r + 1)
                  (cursorOf (tabOf tabs (Number_js (teamKey tc row))) + SA_ROWS_GAP + 1)]\<rparr>)"
proof -
  from assms(2) have ne: "take (t - 1) row \<noteq> []" by (simp add: blocked_def)
  then have t: "1 \<le> t" "t \<noteq> 0" "row \<noteq> []" by (auto intro: ccontr)
  then have len: "0 < length (take (t - 1) row)" using ne by simp
  show ?thesis
    using assms t len
    by (auto simp: migrateRow_def pushable_def alreadyPasted_def emptyKey_def teamKey_def validTeam_def
      Let_def findLastContentRow_cursorOf getRange_def withTabReport_def tabOf_def setValue_def
      setValues_def blocked_def pasteRange_def split: option.splits)
qed

lemma migrateRow_Inr_summary:
  assumes "migrateRow rf tc t r row (src, tabs, rep) = Inr (src1, tabs1, rep1)"
  shows "(pushable tc t row \<longrightarrow>
            \<not> blocked rf tc t row tabs \<and> take (t - 1) row \<noteq> [] \<and>
            src1 = writeRowAt src (r + 1) t [JStr SA_TRACKING_COL] \<and>
            tabs1 = stepTabs tc t row tabs \<and> pushed rep1 = pushed rep + 1 \<and> skipped rep1 = skipped rep) \<and>
         (\<not> pushable tc t row \<longrightarrow>
            src1 = src \<and> tabs1 = tabs \<and> pushed rep1 = pushed rep \<and> newSheets rep1 = newSheets rep \<and>
            skipped rep1 = skipped rep + (if alreadyPasted t row then 1 else 0))"
proof (cases "pushable tc t row")
  case True
  show ?thesis
  proof (cases "blocked rf tc t row tabs")
    case e: True
    from migrateRow_blocked[OF True e] assms show ?thesis by simp
  next
    case nb: False
    then have ne: "take (t - 1) row \<noteq> []" by (simp add: blocked_def)
    from migrateRow_push[OF True nb, of r src rep] assms True nb ne show ?thesis
      by (auto simp: stepTabs_def withTabReport_def split: option.splits)
  qed
next
  case False
  show ?thesis
  proof (cases "alreadyPasted t row")
    case True
    from migrateRow_skip[OF True, of rf tc r src tabs rep] assms False True show ?thesis by auto
  next
    case np: False
    show ?thesis
    proof (cases "emptyKey (teamKey tc row)")
      case True
      from migrateRow_empty[OF np True, of rf r src tabs rep] assms False np show ?thesis by auto
    next
      case ne: False
      with False np have nv: "\<not> validTeam (teamKey tc row)" by (simp add: pushable_def)
      from migrateRow_warn[OF np ne nv, of rf r src tabs rep] assms False np show ?thesis by auto
    qed
  qed
qed

lemma migrateRow_not_pushable:
  assumes "\<not> pushable tc t row"
  shows "\<exists>rep1. migrateRow rf tc t r row (src, tabs, rep) = Inr (src, tabs, rep1) \<and>
           pushed rep1 = pushed rep \<and> newSheets rep1 = newSheets rep \<and>
           skipped rep1 = skipped rep + (if alreadyPasted t row then 1 else 0)"
proof (cases "alreadyPasted t row")
  case True
  from migrateRow_skip[OF True, of rf tc r src tabs rep] True show ?thesis by simp
next
  case np: False
  show ?thesis
  proof (cases "emptyKey (teamKey tc row)")
    case True
    from migrateRow_empty[OF np True, of rf r src tabs rep] np show ?thesis by simp
  next
    case ne: False
    with assms np have nv: "\<not> validTeam (teamKey tc row)" by (simp add: pushable_def)
    from migrateRow_warn[OF np ne nv, of rf r src tabs rep] np show ?thesis by simp
  qed
qed

lemma migrateRow_Inl_summary:
  assumes "migrateRow rf tc t r row (src, tabs, rep) = Inl (e, src', tabs')"
  shows "pushable tc t row \<and> blocked rf tc t row tabs \<and> e = blockError t row \<and> src' = src \<and>
         tabs' = withTab tabs (Number_js (teamKey tc row))"
proof -
  have p: "pushable tc t row"
  proof (rule ccontr)
    assume "\<not> pushable tc t row"
    from migrateRow_not_pushable[OF this, of rf r src tabs rep] assms show False by auto
  qed
  have b: "blocked rf tc t row tabs"
  proof (rule ccontr)
    assume "\<not> blocked rf tc t row tabs"
    from migrateRow_push[OF p this, of r src rep] assms show False by simp
  qed
  from migrateRow_blocked[OF p b, of r src rep] assms p b show ?thesis by simp
qed

lemma loop_no_push:
  "list_all (\<lambda>row. \<not> pushable tc t row) rows \<Longrightarrow>
   \<exists>rep'. migrateRows rf tc t r rows (src, tabs, rep) = Inr (src, tabs, rep') \<and>
          pushed rep' = pushed rep \<and> newSheets rep' = newSheets rep \<and>
          skipped rep' = skipped rep + length (filter (alreadyPasted t) rows)"
proof (induction rows arbitrary: r rep)
  case Nil
  then show ?case by simp
next
  case (Cons row rows)
  then have np: "\<not> pushable tc t row" and rest: "list_all (\<lambda>row. \<not> pushable tc t row) rows" by simp_all
  from migrateRow_not_pushable[OF np, of rf r src tabs rep] obtain rep1 where
    s: "migrateRow rf tc t r row (src, tabs, rep) = Inr (src, tabs, rep1)" "pushed rep1 = pushed rep"
       "newSheets rep1 = newSheets rep" "skipped rep1 = skipped rep + (if alreadyPasted t row then 1 else 0)"
    by blast
  from Cons.IH[OF rest, of "r + 1" rep1] obtain rep' where
    l: "migrateRows rf tc t (r + 1) rows (src, tabs, rep1) = Inr (src, tabs, rep')" "pushed rep' = pushed rep1"
       "newSheets rep' = newSheets rep1" "skipped rep' = skipped rep1 + length (filter (alreadyPasted t) rows)"
    by blast
  from s l show ?case by simp
qed

lemma nth_Cons_shift:
  assumes "r < r'"
  shows "(row # rows) ! (r' - r - 1) = (if r' = r + 1 then row else rows ! (r' - (r + 1) - 1))"
proof (cases "r' = r + 1")
  case True
  then show ?thesis by simp
next
  case False
  with assms have "r' - r - 1 = Suc (r' - (r + 1) - 1)" by arith
  with False show ?thesis by simp
qed

lemma loop_Inr_source:
  assumes "migrateRows rf tc t r rows (src, tabs, rep) = Inr (src', tabs', rep')" "1 \<le> t"
  shows "cellAt src' r' c' =
           (if c' = t \<and> r < r' \<and> r' \<le> r + length rows \<and> pushable tc t (rows ! (r' - r - 1))
            then JStr SA_TRACKING_COL else cellAt src r' c') \<and>
         length src \<le> length src' \<and>
         (r + length rows \<le> length src \<longrightarrow> length src' = length src) \<and>
         pushed rep' = pushed rep + length (filter (pushable tc t) rows) \<and>
         skipped rep' = skipped rep + length (filter (alreadyPasted t) rows)"
  using assms
proof (induction rows arbitrary: r src tabs rep)
  case Nil
  then show ?case by auto
next
  case (Cons row rows)
  from Cons.prems(1) obtain src1 tabs1 rep1 where
    s: "migrateRow rf tc t r row (src, tabs, rep) = Inr (src1, tabs1, rep1)" and
    l: "migrateRows rf tc t (r + 1) rows (src1, tabs1, rep1) = Inr (src', tabs', rep')"
    by (auto split: sum.splits)
  from Cons.IH[OF l Cons.prems(2)] have
    ihc: "cellAt src' r' c' =
           (if c' = t \<and> r + 1 < r' \<and> r' \<le> r + 1 + length rows \<and> pushable tc t (rows ! (r' - (r + 1) - 1))
            then JStr SA_TRACKING_COL else cellAt src1 r' c')" and
    ihl: "length src1 \<le> length src'" "r + 1 + length rows \<le> length src1 \<longrightarrow> length src' = length src1" and
    ihp: "pushed rep' = pushed rep1 + length (filter (pushable tc t) rows)" and
    ihs: "skipped rep' = skipped rep1 + length (filter (alreadyPasted t) rows)"
    by blast+
  note sm = migrateRow_Inr_summary[OF s]
  have c1: "cellAt src1 r' c' =
      (if pushable tc t row \<and> r' = r + 1 \<and> c' = t then JStr SA_TRACKING_COL else cellAt src r' c')"
    using sm Cons.prems(2) by (cases "pushable tc t row") (auto simp: cellAt_writeRowAt)
  have len1: "length src1 = (if pushable tc t row then max (length src) (r + 1) else length src)"
    using sm by (cases "pushable tc t row") (auto simp: length_writeRowAt)
  have cnt: "pushed rep1 = pushed rep + (if pushable tc t row then 1 else 0)"
    "skipped rep1 = skipped rep + (if alreadyPasted t row then 1 else 0)"
    using sm by (cases "pushable tc t row"; auto simp: pushable_def)+
  have cell: "cellAt src' r' c' =
           (if c' = t \<and> r < r' \<and> r' \<le> r + length (row # rows) \<and> pushable tc t ((row # rows) ! (r' - r - 1))
            then JStr SA_TRACKING_COL else cellAt src r' c')"
  proof (cases "r < r'")
    case False
    then have "\<not> r + 1 < r'" "r' \<noteq> r + 1" by arith+
    with ihc c1 False show ?thesis by simp
  next
    case True
    note shift = nth_Cons_shift[OF True, of row rows]
    show ?thesis
    proof (cases "r' = r + 1")
      case eq: True
      then have "\<not> r + 1 < r'" by simp
      with ihc have "cellAt src' r' c' = cellAt src1 r' c'" by simp
      with c1 eq shift show ?thesis by simp
    next
      case ne: False
      with True have lt: "r + 1 < r'" by arith
      have le: "(r' \<le> r + length (row # rows)) = (r' \<le> r + 1 + length rows)" by simp
      from c1 ne have "cellAt src1 r' c' = cellAt src r' c'" by simp
      with ihc lt True ne shift show ?thesis unfolding le by simp
    qed
  qed
  have lens: "length src \<le> length src'" using ihl(1) len1 by (simp split: if_splits)
  have lene: "r + length (row # rows) \<le> length src \<longrightarrow> length src' = length src"
    using ihl(2) len1 by (auto split: if_splits)
  have p: "pushed rep' = pushed rep + length (filter (pushable tc t) (row # rows))"
    using ihp cnt(1) by simp
  have k: "skipped rep' = skipped rep + length (filter (alreadyPasted t) (row # rows))"
    using ihs cnt(2) by simp
  from cell lens lene p k show ?case by blast
qed

lemma cursor_above: "cursorOf sh < r \<Longrightarrow> \<not> hasContent (cellAt sh r c)"
  using findLastContentRow_char[of sh] by (auto simp: cursorOf_def)

lemma cellAt_paste:
  "cellAt (writeRowAt sh (cursorOf sh + SA_ROWS_GAP + 1) 1 vals) r c =
     (if r = cursorOf sh + SA_ROWS_GAP + 1 \<and> 1 \<le> c \<and> c \<le> length vals then vals ! (c - 1)
      else cellAt sh r c)"
  by (auto simp: cellAt_writeRowAt)

lemma paste_keeps_content:
  assumes "hasContent (cellAt sh r c)"
  shows "cellAt (writeRowAt sh (cursorOf sh + SA_ROWS_GAP + 1) 1 vals) r c = cellAt sh r c"
proof -
  from assms cursor_above[of sh r c] have "r \<le> cursorOf sh" by (auto intro: ccontr)
  with cellAt_paste[of sh vals r c] show ?thesis by simp
qed

lemma keeps_refl: "keeps tabs tabs"
  by (simp add: keeps_def)

lemma keeps_trans:
  assumes "keeps a b" "keeps b c"
  shows "keeps a c"
  unfolding keeps_def
proof (intro allI impI)
  fix n sh r k
  assume h: "a n = Some sh \<and> hasContent (cellAt sh r k)"
  with assms(1) obtain sh' where 1: "b n = Some sh'" "cellAt sh' r k = cellAt sh r k"
    unfolding keeps_def by blast
  with h have "b n = Some sh' \<and> hasContent (cellAt sh' r k)" by simp
  with assms(2) obtain sh'' where "c n = Some sh''" "cellAt sh'' r k = cellAt sh' r k"
    unfolding keeps_def by blast
  with 1 show "\<exists>sh'. c n = Some sh' \<and> cellAt sh' r k = cellAt sh r k" by simp
qed

lemma keeps_step: "keeps tabs (stepTabs tc t row tabs)"
  unfolding keeps_def
proof (intro allI impI)
  fix n sh r c
  assume h: "tabs n = Some sh \<and> hasContent (cellAt sh r c)"
  show "\<exists>sh'. stepTabs tc t row tabs n = Some sh' \<and> cellAt sh' r c = cellAt sh r c"
  proof (cases "n = Number_js (teamKey tc row)")
    case True
    with h have "tabOf tabs (Number_js (teamKey tc row)) = sh" by (simp add: tabOf_def)
    with h True paste_keeps_content[of sh r c "take (t - 1) row"] show ?thesis
      by (simp add: stepTabs_def)
  next
    case False
    with h show ?thesis by (simp add: stepTabs_def)
  qed
qed

lemma keeps_withTab: "keeps tabs (withTab tabs n)"
  by (auto simp: keeps_def withTab_def split: option.splits)

lemma migrateRow_keeps:
  assumes "migrateRow rf tc t r row (src, tabs, rep) = Inr (src1, tabs1, rep1)"
  shows "keeps tabs tabs1"
  using migrateRow_Inr_summary[OF assms]
  by (cases "pushable tc t row") (auto simp: keeps_step keeps_refl)


lemma length_readRows: "length (readRows sh L t) = L - 1"
  by (simp add: readRows_def length_getValues)

lemma nth_readRows:
  assumes "k < L - 1"
  shows "readRows sh L t ! k = map (cellAt sh (k + 2)) [1 ..< 1 + t]"
proof -
  define rg where "rg = \<lparr>rg_row = 1, rg_col = 1, rg_rows = L, rg_cols = t\<rparr>"
  from assms have k: "k + 1 < rg_rows rg" by (simp add: rg_def)
  have "readRows sh L t ! k = getValues sh rg ! (k + 1)"
    using assms by (simp add: readRows_def rg_def length_getValues)
  also have "\<dots> = map (cellAt sh (rg_row rg + (k + 1))) [rg_col rg ..< rg_col rg + rg_cols rg]"
    using k by (rule nth_getValues)
  also have "\<dots> = map (cellAt sh (k + 2)) [1 ..< 1 + t]" by (simp add: rg_def del: upt_Suc)
  finally show ?thesis .
qed


lemma js_nth_readRows:
  "k < L - 1 \<Longrightarrow> c < t \<Longrightarrow> js_nth (readRows sh L t ! k) c = cellAt sh (k + 2) (c + 1)"
  by (simp add: nth_readRows js_nth_def del: upt_Suc)

lemma teamColumn_resolved: "resolveColumn SA_TEAM_COLUMN = Some (Finite 1)"
  by code_simp


lemma run_unfold:
  assumes "source ss = Some src" "2 \<le> length src"
    "getOrCreateTrackingColumn src (getLastColumn src) = Inr (src1, t)"
  shows "pushSADataToTeamSheets ss =
     (case migrateRows (refuses ss) (Finite 1) t 1 (readRows src1 (length src) t)
             (src1, teams ss, emptyReport) of
        Inl (e, src2, tabs2) \<Rightarrow> (ss\<lparr>source := Some src2, teams := tabs2\<rparr>, Inl e)
      | Inr (src2, tabs2, rep) \<Rightarrow> (ss\<lparr>source := Some src2, teams := tabs2\<rparr>, Inr (Done rep)))"
proof -
  from getOrCreate_Inr[OF assms(3)] have t: "1 \<le> t" by simp
  from assms(2) have "src \<noteq> []" "\<not> length src < 2" by auto
  with t assms show ?thesis
    by (simp add: pushSADataToTeamSheets_def getLastRow_def teamColumn_resolved getRange_def
        readRows_def Let_def)
qed

lemma mark_cells_step:
  assumes "x' = (if c' = t \<and> r + 1 < r' \<and> r' \<le> r + 1 + m \<and> P (rows ! (r' - (r + 1) - 1)) then M else x1)"
    and "x1 = (if P row \<and> r' = r + 1 \<and> c' = t then M else x)"
  shows "x' = (if c' = t \<and> r < r' \<and> r' \<le> r + Suc m \<and> P ((row # rows) ! (r' - r - 1)) then M else x)"
proof (cases "r < r'")
  case False
  then have "\<not> r + 1 < r'" "r' \<noteq> r + 1" by arith+
  with assms False show ?thesis by simp
next
  case True
  note shift = nth_Cons_shift[OF True, of row rows]
  show ?thesis
  proof (cases "r' = r + 1")
    case eq: True
    then have "\<not> r + 1 < r'" by simp
    with assms(1) have "x' = x1" by simp
    with assms(2) eq shift show ?thesis by simp
  next
    case ne: False
    with True have lt: "r + 1 < r'" by arith
    have le: "(r' \<le> r + Suc m) = (r' \<le> r + 1 + m)" by simp
    from assms(2) ne have "x1 = x" by simp
    with assms(1) lt True ne shift show ?thesis unfolding le by simp
  qed
qed

text \<open>
  A loop that ends with an exception has marked the rows it has pasted, and stops at a
  row that is not marked and whose paste fails; the same row fails again in the state
  that is left.
\<close>

lemma loop_Inl_char:
  assumes "migrateRows rf tc t r rows (src, tabs, rep) = Inl (e, src', tabs')" "1 \<le> t"
  shows "\<exists>k. k < length rows \<and>
     (\<forall>r' c'. cellAt src' r' c' =
        (if c' = t \<and> r < r' \<and> r' \<le> r + k \<and> pushable tc t (rows ! (r' - r - 1))
         then JStr SA_TRACKING_COL else cellAt src r' c')) \<and>
     length src \<le> length src' \<and>
     (r + length rows \<le> length src \<longrightarrow> length src' = length src) \<and>
     pushable tc t (rows ! k) \<and> blocked rf tc t (rows ! k) tabs' \<and> e = blockError t (rows ! k) \<and>
     withTab tabs' (Number_js (teamKey tc (rows ! k))) = tabs' \<and> keeps tabs tabs'"
  using assms
proof (induction rows arbitrary: r src tabs rep)
  case Nil
  then show ?case by simp
next
  case (Cons row rows)
  show ?case
  proof (cases "migrateRow rf tc t r row (src, tabs, rep)")
    case (Inl q)
    with Cons.prems(1) have s: "migrateRow rf tc t r row (src, tabs, rep) = Inl (e, src', tabs')"
      by simp
    note sm = migrateRow_Inl_summary[OF s]
    from sm have "blocked rf tc t row tabs'" by (simp add: blocked_withTab)
    moreover from sm have "withTab tabs' (Number_js (teamKey tc row)) = tabs'"
      by (simp add: withTab_idem)
    moreover from sm have "keeps tabs tabs'" by (simp add: keeps_withTab)
    ultimately have
      "0 < length (row # rows) \<and>
       (\<forall>r' c'. cellAt src' r' c' =
          (if c' = t \<and> r < r' \<and> r' \<le> r + 0 \<and> pushable tc t ((row # rows) ! (r' - r - 1))
           then JStr SA_TRACKING_COL else cellAt src r' c')) \<and>
       length src \<le> length src' \<and>
       (r + length (row # rows) \<le> length src \<longrightarrow> length src' = length src) \<and>
       pushable tc t ((row # rows) ! 0) \<and> blocked rf tc t ((row # rows) ! 0) tabs' \<and>
       e = blockError t ((row # rows) ! 0) \<and>
       withTab tabs' (Number_js (teamKey tc ((row # rows) ! 0))) = tabs' \<and> keeps tabs tabs'"
      using sm by auto
    then show ?thesis by blast
  next
    case (Inr q)
    then obtain src1 tabs1 rep1 where
      s: "migrateRow rf tc t r row (src, tabs, rep) = Inr (src1, tabs1, rep1)" by (cases q) auto
    with Cons.prems(1) have
      l: "migrateRows rf tc t (r + 1) rows (src1, tabs1, rep1) = Inl (e, src', tabs')" by simp
    from Cons.IH[OF l Cons.prems(2)] obtain k where k: "k < length rows" and
      ihc: "\<And>r' c'. cellAt src' r' c' =
           (if c' = t \<and> r + 1 < r' \<and> r' \<le> r + 1 + k \<and> pushable tc t (rows ! (r' - (r + 1) - 1))
            then JStr SA_TRACKING_COL else cellAt src1 r' c')" and
      ihl: "length src1 \<le> length src'" "r + 1 + length rows \<le> length src1 \<longrightarrow> length src' = length src1" and
      ihk: "pushable tc t (rows ! k)" "blocked rf tc t (rows ! k) tabs'" "e = blockError t (rows ! k)"
        "withTab tabs' (Number_js (teamKey tc (rows ! k))) = tabs'" "keeps tabs1 tabs'"
      by blast
    note sm = migrateRow_Inr_summary[OF s]
    have c1: "cellAt src1 r' c' =
        (if pushable tc t row \<and> r' = r + 1 \<and> c' = t then JStr SA_TRACKING_COL else cellAt src r' c')"
      for r' c'
      using sm Cons.prems(2) by (cases "pushable tc t row") (auto simp: cellAt_writeRowAt)
    have len1: "length src1 = (if pushable tc t row then max (length src) (r + 1) else length src)"
      using sm by (cases "pushable tc t row") (auto simp: length_writeRowAt)
    have cell: "cellAt src' r' c' =
           (if c' = t \<and> r < r' \<and> r' \<le> r + Suc k \<and> pushable tc t ((row # rows) ! (r' - r - 1))
            then JStr SA_TRACKING_COL else cellAt src r' c')" for r' c'
      using ihc[of r' c'] c1[of r' c'] by (rule mark_cells_step)
    have lens: "length src \<le> length src'" using ihl(1) len1 by (simp split: if_splits)
    have lene: "r + length (row # rows) \<le> length src \<longrightarrow> length src' = length src"
      using ihl(2) len1 by (auto split: if_splits)
    have kp: "keeps tabs tabs'" using migrateRow_keeps[OF s] ihk(5) by (rule keeps_trans)
    have "Suc k < length (row # rows)" using k by simp
    moreover have "(row # rows) ! Suc k = rows ! k" by simp
    ultimately have
      "Suc k < length (row # rows) \<and>
       (\<forall>r' c'. cellAt src' r' c' =
          (if c' = t \<and> r < r' \<and> r' \<le> r + Suc k \<and> pushable tc t ((row # rows) ! (r' - r - 1))
           then JStr SA_TRACKING_COL else cellAt src r' c')) \<and>
       length src \<le> length src' \<and>
       (r + length (row # rows) \<le> length src \<longrightarrow> length src' = length src) \<and>
       pushable tc t ((row # rows) ! Suc k) \<and> blocked rf tc t ((row # rows) ! Suc k) tabs' \<and>
       e = blockError t ((row # rows) ! Suc k) \<and>
       withTab tabs' (Number_js (teamKey tc ((row # rows) ! Suc k))) = tabs' \<and> keeps tabs tabs'"
      using cell lens lene kp ihk(1-4) by simp
    then show ?thesis by blast
  qed
qed

lemma loop_prefix_throw:
  assumes "k < length rows" "\<forall>i<k. \<not> pushable tc t (rows ! i)" "pushable tc t (rows ! k)"
    "blocked rf tc t (rows ! k) tabs"
  shows "migrateRows rf tc t r rows (src, tabs, rep) =
     Inl (blockError t (rows ! k), src, withTab tabs (Number_js (teamKey tc (rows ! k))))"
  using assms
proof (induction rows arbitrary: k r rep)
  case Nil
  then show ?case by simp
next
  case (Cons row rows)
  show ?case
  proof (cases k)
    case 0
    with Cons.prems have "pushable tc t row" "blocked rf tc t row tabs" by simp_all
    from migrateRow_blocked[OF this, of r src rep] 0 show ?thesis by simp
  next
    case (Suc j)
    with Cons.prems(2) have "\<not> pushable tc t ((row # rows) ! 0)" by blast
    then have np: "\<not> pushable tc t row" by simp
    from migrateRow_not_pushable[OF np, of rf r src tabs rep] obtain rep1 where
      s: "migrateRow rf tc t r row (src, tabs, rep) = Inr (src, tabs, rep1)" by blast
    have j: "j < length rows" using Cons.prems(1) Suc by simp
    have pre: "\<forall>i<j. \<not> pushable tc t (rows ! i)"
    proof (intro allI impI)
      fix i assume "i < j"
      then have "Suc i < k" using Suc by simp
      with Cons.prems(2) have "\<not> pushable tc t ((row # rows) ! Suc i)" by blast
      then show "\<not> pushable tc t (rows ! i)" by simp
    qed
    from Cons.prems(3,4) Suc have "pushable tc t (rows ! j)" "blocked rf tc t (rows ! j) tabs"
      by simp_all
    from Cons.IH[OF j pre this, of "r + 1" rep1] s Suc show ?thesis by simp
  qed
qed


lemma reread_prefix:
  assumes cell: "\<And>r' c'. cellAt src2 r' c' =
        (if c' = t \<and> 1 < r' \<and> r' \<le> 1 + k \<and> pushable tc t (readRows src1 L t ! (r' - 1 - 1))
         then JStr SA_TRACKING_COL else cellAt src1 r' c')"
    and t: "1 \<le> t" and kL: "k \<le> L - 1"
  shows "(\<forall>i<k. \<not> pushable tc t (readRows src2 L t ! i)) \<and>
         (\<forall>i. k \<le> i \<and> i < L - 1 \<longrightarrow> readRows src2 L t ! i = readRows src1 L t ! i)"
proof (rule conjI; intro allI impI)
  fix i assume ik: "i < k"
  with kL have i: "i < L - 1" by simp
  have c: "cellAt src2 (i + 2) c =
      (if c = t \<and> pushable tc t (readRows src1 L t ! i) then JStr SA_TRACKING_COL
       else cellAt src1 (i + 2) c)" for c
  proof -
    have "i + 2 - 1 - 1 = i" by simp
    moreover have "1 < i + 2" "i + 2 \<le> 1 + k" using ik by simp_all
    ultimately show ?thesis using cell[of "i + 2" c] by simp
  qed
  show "\<not> pushable tc t (readRows src2 L t ! i)"
  proof (cases "pushable tc t (readRows src1 L t ! i)")
    case True
    have "js_nth (readRows src2 L t ! i) (t - 1) = cellAt src2 (i + 2) (t - 1 + 1)"
      using i t by (intro js_nth_readRows) simp_all
    with t c[of t] True have "js_nth (readRows src2 L t ! i) (t - 1) = JStr SA_TRACKING_COL"
      by simp
    then show ?thesis by (simp add: pushable_def alreadyPasted_def)
  next
    case False
    with c have "cellAt src2 (i + 2) = cellAt src1 (i + 2)" by (intro ext) simp
    then have "readRows src2 L t ! i = readRows src1 L t ! i"
      using i by (simp add: nth_readRows del: upt_Suc)
    with False show ?thesis by simp
  qed
next
  fix i assume "k \<le> i \<and> i < L - 1"
  then have ki: "k \<le> i" and i: "i < L - 1" by simp_all
  have "cellAt src2 (i + 2) c = cellAt src1 (i + 2) c" for c
  proof -
    have "\<not> i + 2 \<le> 1 + k" using ki by simp
    then show ?thesis using cell[of "i + 2" c] by simp
  qed
  then have "cellAt src2 (i + 2) = cellAt src1 (i + 2)" by (intro ext)
  then show "readRows src2 L t ! i = readRows src1 L t ! i"
    using i by (simp add: nth_readRows del: upt_Suc)
qed

lemma reread_not_pushable:
  assumes loop: "migrateRows rf (Finite 1) t 1 (readRows src1 L t) (src1, tabs, rep) = Inr (src2, tabs2, rep2)"
    and t: "1 \<le> t"
  shows "list_all (\<lambda>row. \<not> pushable (Finite 1) t row) (readRows src2 L t)"
  unfolding list_all_length
proof (intro allI impI)
  fix k assume "k < length (readRows src2 L t)"
  then have k: "k < L - 1" by (simp add: length_readRows)
  have cell: "cellAt src2 (k + 2) c =
      (if c = t \<and> pushable (Finite 1) t (readRows src1 L t ! k) then JStr SA_TRACKING_COL
       else cellAt src1 (k + 2) c)" for c
  proof -
    have "k + 2 - 1 - 1 = k" by simp
    moreover have "1 < k + 2" "k + 2 \<le> 1 + length (readRows src1 L t)"
      using k by (simp_all add: length_readRows)
    ultimately show ?thesis
      using loop_Inr_source[OF loop t, of "k + 2" c] by simp
  qed
  show "\<not> pushable (Finite 1) t (readRows src2 L t ! k)"
  proof (cases "pushable (Finite 1) t (readRows src1 L t ! k)")
    case True
    have "js_nth (readRows src2 L t ! k) (t - 1) = cellAt src2 (k + 2) (t - 1 + 1)"
      using k t by (intro js_nth_readRows) simp_all
    with t cell[of t] True have "js_nth (readRows src2 L t ! k) (t - 1) = JStr SA_TRACKING_COL"
      by simp
    then show ?thesis by (simp add: pushable_def alreadyPasted_def)
  next
    case False
    with cell have "cellAt src2 (k + 2) = cellAt src1 (k + 2)" by (intro ext) simp
    then have "readRows src2 L t ! k = readRows src1 L t ! k"
      using k by (simp add: nth_readRows del: upt_Suc)
    with False show ?thesis by simp
  qed
qed

lemma getOrCreate_length:
  assumes "getOrCreateTrackingColumn sh n = Inr (sh1, t)" "1 \<le> length sh"
  shows "length sh1 = length sh"
  using getOrCreate_Inr[OF assms(1)] assms(2) by (auto simp: length_writeRowAt)

section \<open>Running the driver twice\<close>

lemma header_kept_found:
  assumes "cellAt src1 1 t = JStr SA_TRACKING_COL"
    and "\<forall>j. 1 \<le> j \<and> j < t \<longrightarrow> cellAt src1 1 j \<noteq> JStr SA_TRACKING_COL"
    and "1 \<le> t" and "\<And>c. cellAt src2 1 c = cellAt src1 1 c"
  shows "getOrCreateTrackingColumn src2 (getLastColumn src2) = Inr (src2, t)"
proof -
  have hd2: "cellAt src2 1 t = JStr SA_TRACKING_COL" using assms(1,4) by simp
  then have "cellAt src2 1 t \<noteq> JStr []" by (simp add: tracking_name_nonempty)
  then have tl: "t \<le> getLastColumn src2" using cellAt_extent by blast
  have first2: "\<forall>j. 1 \<le> j \<and> j < t \<longrightarrow> cellAt src2 1 j \<noteq> JStr SA_TRACKING_COL"
    using assms(2,4) by simp
  show ?thesis using assms(3) tl hd2 first2 by (rule getOrCreate_found)
qed

text \<open>
  C1. Whatever the spreadsheet, a second run of the driver right after the first leaves
  every sheet as the first run left it, the source and every team tab. When the first run
  ended with its report, the second ends with a report whose \<open>pushed\<close> is 0; when the
  first run ended with an alert or an exception, the second ends the same way.
\<close>

theorem push_twice:
  assumes "pushSADataToTeamSheets ss = (ss1, out1)"
  shows "\<exists>out2. pushSADataToTeamSheets ss1 = (ss1, out2) \<and>
           (\<forall>rep1. out1 = Inr (Done rep1) \<longrightarrow> (\<exists>rep2. out2 = Inr (Done rep2) \<and> pushed rep2 = 0)) \<and>
           ((\<forall>rep1. out1 \<noteq> Inr (Done rep1)) \<longrightarrow> out2 = out1)"
proof (cases "source ss")
  case None
  with assms have "ss1 = ss" "out1 = Inr SheetNotFound"
    by (simp_all add: pushSADataToTeamSheets_def)
  with assms show ?thesis by simp
next
  case (Some src)
  show ?thesis
  proof (cases "length src < 2")
    case True
    with Some assms have "ss1 = ss" "out1 = Inr NoDataRows"
      by (simp_all add: pushSADataToTeamSheets_def getLastRow_def Let_def)
    with assms show ?thesis by simp
  next
    case False
    then have L: "2 \<le> length src" by simp
    show ?thesis
    proof (cases "getOrCreateTrackingColumn src (getLastColumn src)")
      case (Inl e)
      with Some False assms have "ss1 = ss" "out1 = Inl e"
        by (simp_all add: pushSADataToTeamSheets_def getLastRow_def Let_def teamColumn_resolved)
      with assms show ?thesis by simp
    next
      case (Inr p)
      then obtain src1 t where g: "getOrCreateTrackingColumn src (getLastColumn src) = Inr (src1, t)"
        by (cases p) simp
      note run1 = run_unfold[OF Some L g]
      from getOrCreate_Inr[OF g] have t: "1 \<le> t" and hd1: "cellAt src1 1 t = JStr SA_TRACKING_COL"
        and first1: "\<forall>j. 1 \<le> j \<and> j < t \<longrightarrow> cellAt src1 1 j \<noteq> JStr SA_TRACKING_COL"
        and shape: "src1 = src \<and> t \<le> getLastColumn src \<or>
          src1 = writeRowAt src 1 (getLastColumn src + 1) [JStr SA_TRACKING_COL] \<and> t = getLastColumn src + 1"
        and n1: "1 \<le> getLastColumn src"
        by simp_all
      from getOrCreate_length[OF g] L have len1: "length src1 = length src" by simp
      define rows where "rows = readRows src1 (length src) t"
      show ?thesis
      proof (cases "migrateRows (refuses ss) (Finite 1) t 1 rows (src1, teams ss, emptyReport)")
        case (Inl q)
        then obtain e src2 tabs2 where
          l: "migrateRows (refuses ss) (Finite 1) t 1 rows (src1, teams ss, emptyReport) = Inl (e, src2, tabs2)"
          by (cases q) auto
        with run1 assms have r1: "ss1 = ss\<lparr>source := Some src2, teams := tabs2\<rparr>" "out1 = Inl e"
          by (simp_all add: rows_def)
        from loop_Inl_char[OF l t] obtain k where k: "k < length rows" and
          cell: "\<And>r' c'. cellAt src2 r' c' =
            (if c' = t \<and> 1 < r' \<and> r' \<le> 1 + k \<and> pushable (Finite 1) t (rows ! (r' - 1 - 1))
             then JStr SA_TRACKING_COL else cellAt src1 r' c')" and
          lenk: "1 + length rows \<le> length src1 \<longrightarrow> length src2 = length src1" and
          pk: "pushable (Finite 1) t (rows ! k)" and
          bk: "blocked (refuses ss) (Finite 1) t (rows ! k) tabs2" and
          ek: "e = blockError t (rows ! k)" and
          wk: "withTab tabs2 (Number_js (teamKey (Finite 1) (rows ! k))) = tabs2"
          by blast
        have lr: "length rows = length src - 1" by (simp add: rows_def length_readRows)
        have len2: "length src2 = length src" using lenk lr len1 L by simp
        have cell2: "cellAt src2 1 c = cellAt src1 1 c" for c using cell[of 1 c] by simp
        have g2: "getOrCreateTrackingColumn src2 (getLastColumn src2) = Inr (src2, t)"
          using hd1 first1 t cell2 by (rule header_kept_found)
        define rows2 where "rows2 = readRows src2 (length src) t"
        from k lr have kL: "k \<le> length src - 1" "k < length src - 1" by simp_all
        from reread_prefix[of src2 t k "Finite 1" src1 "length src", OF cell[unfolded rows_def] t kL(1)]
        have pre: "\<forall>i<k. \<not> pushable (Finite 1) t (rows2 ! i)" and same: "rows2 ! k = rows ! k"
          using kL(2) by (simp_all add: rows2_def rows_def)
        have k2: "k < length rows2" using kL(2) by (simp add: rows2_def length_readRows)
        from pk bk same have "pushable (Finite 1) t (rows2 ! k)"
          "blocked (refuses ss) (Finite 1) t (rows2 ! k) tabs2" by simp_all
        from loop_prefix_throw[OF k2 pre this, of 1 src2 emptyReport] same ek wk
        have again: "migrateRows (refuses ss) (Finite 1) t 1 rows2 (src2, tabs2, emptyReport) =
            Inl (e, src2, tabs2)" by simp
        from r1 have src': "source ss1 = Some src2" and tabs': "teams ss1 = tabs2"
          and rf': "refuses ss1 = refuses ss" by simp_all
        from len2 L have L2: "2 \<le> length src2" by simp
        from run_unfold[OF src' L2 g2] again tabs' rf' len2 r1
        have "pushSADataToTeamSheets ss1 = (ss1, Inl e)" by (simp add: rows2_def)
        with r1 show ?thesis by simp
      next
        case (Inr q)
        then obtain src2 tabs2 rep1 where
          l: "migrateRows (refuses ss) (Finite 1) t 1 rows (src1, teams ss, emptyReport) = Inr (src2, tabs2, rep1)"
          by (cases q) auto
        with run1 assms have r1: "ss1 = ss\<lparr>source := Some src2, teams := tabs2\<rparr>" "out1 = Inr (Done rep1)"
          by (simp_all add: rows_def)
        have cell2: "cellAt src2 1 c = cellAt src1 1 c" for c
          using loop_Inr_source[OF l t, of 1 c] by simp
        have len2: "length src2 = length src"
          using loop_Inr_source[OF l t, of 1 1] len1 L by (simp add: rows_def length_readRows)
        have hd2: "cellAt src2 1 t = JStr SA_TRACKING_COL" using hd1 cell2 by simp
        then have "cellAt src2 1 t \<noteq> JStr []" by (simp add: tracking_name_nonempty)
        then have tl: "t \<le> getLastColumn src2" using cellAt_extent by blast
        have first2: "\<forall>j. 1 \<le> j \<and> j < t \<longrightarrow> cellAt src2 1 j \<noteq> JStr SA_TRACKING_COL"
          using first1 cell2 by simp
        have g2: "getOrCreateTrackingColumn src2 (getLastColumn src2) = Inr (src2, t)"
          using t tl hd2 first2 by (rule getOrCreate_found)
        from r1 have src': "source ss1 = Some src2" and tabs': "teams ss1 = tabs2"
          and rf': "refuses ss1 = refuses ss" by simp_all
        from len2 L have L2: "2 \<le> length src2" by simp
        from reread_not_pushable[OF l[unfolded rows_def] t]
        have "list_all (\<lambda>row. \<not> pushable (Finite 1) t row) (readRows src2 (length src) t)" .
        from loop_no_push[OF this, of "refuses ss" 1 src2 tabs2 emptyReport] obtain rep2 where
          l2: "migrateRows (refuses ss) (Finite 1) t 1 (readRows src2 (length src) t) (src2, tabs2, emptyReport) =
                Inr (src2, tabs2, rep2)" and p2: "pushed rep2 = 0"
          by (auto simp: emptyReport_def)
        from run_unfold[OF src' L2 g2] l2 tabs' rf' len2 r1
        have "pushSADataToTeamSheets ss1 = (ss1, Inr (Done rep2))" by simp
        with r1 p2 show ?thesis by simp
      qed
    qed
  qed
qed

theorem push_twice_witness:
  "pushedOf (snd (pushSADataToTeamSheets demoBook)) = Some 2 \<and>
   fst (pushSADataToTeamSheets (fst (pushSADataToTeamSheets demoBook))) = fst (pushSADataToTeamSheets demoBook) \<and>
   pushedOf (snd (pushSADataToTeamSheets (fst (pushSADataToTeamSheets demoBook)))) = Some 0"
proof -
  have h: "pushSADataToTeamSheets demoBook =
      (fst (pushSADataToTeamSheets demoBook), snd (pushSADataToTeamSheets demoBook))" by simp
  have a: "snd (pushSADataToTeamSheets demoBook) =
     Inr (Done \<lparr>pushed = 2, skipped = 0, newSheets = 2,
        details = [Created (Finite 5), Pasted (Finite 5) 2 6, Warned 3 (JStr ''abc''),
                   Created (Finite 7), Pasted (Finite 7) 5 6]\<rparr>)"
    by code_simp
  from push_twice [OF h] a obtain out2 rep2 where
    "pushSADataToTeamSheets (fst (pushSADataToTeamSheets demoBook)) = (fst (pushSADataToTeamSheets demoBook), out2)"
    "out2 = Inr (Done rep2)" "pushed rep2 = 0"
    by auto
  with a show ?thesis by (simp add: pushedOf_def)
qed

section \<open>Rows that are not pasted\<close>

text \<open>
  \<open>Number\<close> on some keys: white space around the digits is dropped, the no-break space
  too; a fraction is a number; text is not.
\<close>

lemma Number_js_keys:
  "Number_js (JStr [CHR 0xA0, CHR ''5'']) = Finite 5 \<and>
   Number_js (JStr '' 12 '') = Finite 12 \<and>
   Number_js (JStr ''1.5'') = Finite (3 / 2) \<and>
   Number_js (JStr ''-2'') = Finite (- 2) \<and>
   Number_js (JStr ''0x1F'') = Finite 31 \<and>
   Number_js (JStr ''abc'') = NaN \<and>
   Number_js (JStr ''  '') = Finite 0 \<and>
   Number_js (JBool True) = Finite 1"
  by code_simp

text \<open>
  C5, as the code has it. For a row that is not marked as pasted and whose key cell is
  not empty, when \<open>Number\<close> of the key is \<open>NaN\<close>, zero or negative, the body of the loop
  adds a warning to the log and changes nothing else: no sheet, no counter. The loop goes
  on with the rows that follow.
\<close>

theorem invalid_key_warns:
  assumes "js_nth row (t - 1) \<noteq> JStr SA_TRACKING_COL" "js_nth row (t - 1) \<noteq> JBool True"
    "js_nth row (t - 1) \<noteq> JStr ''TRUE''"
    and "key = js_index row (num_pred tc)"
    and "key \<noteq> JStr []" "key \<noteq> JNull" "key \<noteq> JUndefined"
    and "isNaN (Number_js key) \<or> num_le0 (Number_js key)"
  shows "migrateRow rf tc t r row (src, tabs, rep) =
           Inr (src, tabs, rep\<lparr>details := details rep @ [Warned (r + 1) key]\<rparr>) \<and>
         migrateRows rf tc t r (row # rows) (src, tabs, rep) =
           migrateRows rf tc t (r + 1) rows (src, tabs, rep\<lparr>details := details rep @ [Warned (r + 1) key]\<rparr>)"
proof -
  from assms have "\<not> alreadyPasted t row" "\<not> emptyKey (teamKey tc row)" "\<not> validTeam (teamKey tc row)"
    by (auto simp: alreadyPasted_def emptyKey_def teamKey_def validTeam_def)
  from migrateRow_warn[OF this, of rf r src tabs rep] assms(4) show ?thesis
    by (simp add: teamKey_def)
qed

theorem invalid_key_warns_witness:
  "reportOf (migrateRows noRefusal (Finite 1) 3 2 [[JStr ''abc'', JStr ''b'', JStr []], [JStr ''7'', JStr ''d'', JStr []]]
      (demoSource, Map.empty, emptyReport)) =
   Some \<lparr>pushed = 1, skipped = 0, newSheets = 1,
      details = [Warned 3 (JStr ''abc''), Created (Finite 7), Pasted (Finite 7) 4 6]\<rparr>"
proof -
  have n: "isNaN (Number_js (JStr ''abc'')) \<or> num_le0 (Number_js (JStr ''abc''))" by code_simp
  have k: "JStr ''abc'' = js_index [JStr ''abc'', JStr ''b'', JStr []] (num_pred (Finite 1))"
    by (simp add: js_nth_def)
  have e: "reportOf (migrateRows noRefusal (Finite 1) 3 (2 + 1) [[JStr ''7'', JStr ''d'', JStr []]]
      (demoSource, Map.empty, emptyReport\<lparr>details := details emptyReport @ [Warned (2 + 1) (JStr ''abc'')]\<rparr>)) =
   Some \<lparr>pushed = 1, skipped = 0, newSheets = 1,
      details = [Warned 3 (JStr ''abc''), Created (Finite 7), Pasted (Finite 7) 4 6]\<rparr>"
    by code_simp
  from invalid_key_warns [of "[JStr ''abc'', JStr ''b'', JStr []]" 3 "JStr ''abc''" "Finite 1" noRefusal 2
      demoSource Map.empty emptyReport "[[JStr ''7'', JStr ''d'', JStr []]]", OF _ _ _ k _ _ _ n]
  have "migrateRows noRefusal (Finite 1) 3 2 [[JStr ''abc'', JStr ''b'', JStr []], [JStr ''7'', JStr ''d'', JStr []]]
      (demoSource, Map.empty, emptyReport) =
    migrateRows noRefusal (Finite 1) 3 (2 + 1) [[JStr ''7'', JStr ''d'', JStr []]]
      (demoSource, Map.empty, emptyReport\<lparr>details := details emptyReport @ [Warned (2 + 1) (JStr ''abc'')]\<rparr>)"
    by (simp add: js_nth_def SA_TRACKING_COL_def)
  with e show ?thesis by simp
qed

text \<open>
  C5 as stated fails. The key 1.5 is not a positive integer, yet the row is pasted into
  the tab of 1.5 and counted; and a row that is already marked is skipped without a
  warning, whatever its key.
\<close>

theorem fractional_key_counterexample:
  "snd (pushSADataToTeamSheets
     \<lparr>source = Some [[JStr ''team'', JStr ''note''], [JNum (Finite (3 / 2)), JStr ''x'']],
      teams = Map.empty, refuses = noRefusal\<rparr>) =
   Inr (Done \<lparr>pushed = 1, skipped = 0, newSheets = 1,
      details = [Created (Finite (3 / 2)), Pasted (Finite (3 / 2)) 2 6]\<rparr>) \<and>
   snd (pushSADataToTeamSheets
     \<lparr>source = Some [[JStr ''team'', JStr ''SA_PASTED''], [JStr ''abc'', JBool True]],
      teams = Map.empty, refuses = noRefusal\<rparr>) =
   Inr (Done \<lparr>pushed = 0, skipped = 1, newSheets = 0, details = []\<rparr>)"
  by code_simp

text \<open>
  C9, as the code has it. For a row that is not marked as pasted and whose key cell is
  the empty string, \<open>null\<close> or \<open>undefined\<close>, the body of the loop changes nothing: no
  sheet, no mark, no counter and no log entry, and the loop goes on with the rows that
  follow. So the two counters may add up to less than the number of data rows: a source
  with one such row gives the report with 0 pasted and 0 skipped, and leaves the row
  without mark for the next run.
\<close>

theorem empty_key_ignored:
  assumes "js_nth row (t - 1) \<noteq> JStr SA_TRACKING_COL" "js_nth row (t - 1) \<noteq> JBool True"
    "js_nth row (t - 1) \<noteq> JStr ''TRUE''"
    and "key = js_index row (num_pred tc)"
    and "key = JStr [] \<or> key = JNull \<or> key = JUndefined"
  shows "migrateRow rf tc t r row (src, tabs, rep) = Inr (src, tabs, rep) \<and>
         migrateRows rf tc t r (row # rows) (src, tabs, rep) = migrateRows rf tc t (r + 1) rows (src, tabs, rep) \<and>
         snd (pushSADataToTeamSheets noKeyBook) =
           Inr (Done \<lparr>pushed = 0, skipped = 0, newSheets = 0, details = []\<rparr>) \<and>
         source (fst (pushSADataToTeamSheets noKeyBook)) =
           Some [[JStr ''team'', JStr ''note'', JStr ''SA_PASTED''], [JStr [], JStr ''c'']]"
proof -
  from assms have "\<not> alreadyPasted t row" "emptyKey (teamKey tc row)"
    by (auto simp: alreadyPasted_def emptyKey_def teamKey_def)
  from migrateRow_empty[OF this, of rf r src tabs rep]
  have "migrateRow rf tc t r row (src, tabs, rep) = Inr (src, tabs, rep)" .
  moreover have "snd (pushSADataToTeamSheets noKeyBook) =
           Inr (Done \<lparr>pushed = 0, skipped = 0, newSheets = 0, details = []\<rparr>)"
    by code_simp
  moreover have "source (fst (pushSADataToTeamSheets noKeyBook)) =
           Some [[JStr ''team'', JStr ''note'', JStr ''SA_PASTED''], [JStr [], JStr ''c'']]"
    by code_simp
  ultimately show ?thesis by simp
qed

theorem empty_key_ignored_witness:
  "migrateRow noRefusal (Finite 1) 3 3 [JStr [], JStr ''c'', JStr []] (demoSource, Map.empty, emptyReport) =
     Inr (demoSource, Map.empty, emptyReport)"
proof -
  have k: "JStr [] = js_index [JStr [], JStr ''c'', JStr []] (num_pred (Finite 1))"
    by (simp add: js_nth_def)
  from empty_key_ignored [of "[JStr [], JStr ''c'', JStr []]" 3 "JStr []" "Finite 1" noRefusal 3
      demoSource Map.empty emptyReport "[]", OF _ _ _ k]
  show ?thesis by (simp add: js_nth_def SA_TRACKING_COL_def)
qed

text \<open>
  C9 as stated fails: a row without key whose tracking cell holds the legacy mark
  \<open>true\<close> is counted as skipped.
\<close>

theorem marked_empty_key_counterexample:
  "snd (pushSADataToTeamSheets
     \<lparr>source = Some [[JStr ''team'', JStr ''SA_PASTED''], [JStr [], JBool True]],
      teams = Map.empty, refuses = noRefusal\<rparr>) =
   Inr (Done \<lparr>pushed = 0, skipped = 1, newSheets = 0, details = []\<rparr>)"
  by code_simp

section \<open>Where a row is pasted\<close>

text \<open>
  C2. When the body of the loop pastes a row (the count of pasted rows grows), the tab of
  the team, new and empty when there was none, gets the cells of the row without the
  tracking cell in row \<open>cursor + 5 + 1\<close> from column 1 on, where \<open>cursor\<close> is what
  \<open>findLastContentRow\<close> gives for that tab; no other cell of the tab and no other tab
  changes, and every cell of the tab that had content keeps its value.
\<close>

theorem paste_below_cursor:
  assumes "migrateRow rf tc t r row (src, tabs, rep) = Inr (src', tabs', rep')"
    and "pushed rep' \<noteq> pushed rep"
  shows "SA_ROWS_GAP = 5 \<and>
         (\<exists>n dest cursor new.
            n = Number_js (js_index row (num_pred tc)) \<and>
            dest = (case tabs n of Some sh \<Rightarrow> sh | None \<Rightarrow> []) \<and>
            findLastContentRow dest = Inr cursor \<and>
            tabs' = tabs(n \<mapsto> new) \<and>
            (\<forall>r' c'. cellAt new r' c' =
               (if r' = cursor + SA_ROWS_GAP + 1 \<and> 1 \<le> c' \<and> c' \<le> length (take (t - 1) row)
                then row ! (c' - 1) else cellAt dest r' c')) \<and>
            (\<forall>r' c'. hasContent (cellAt dest r' c') \<longrightarrow> cellAt new r' c' = cellAt dest r' c'))"
proof -
  note sm = migrateRow_Inr_summary[OF assms(1)]
  from sm assms(2) have p: "pushable tc t row" by (cases "pushable tc t row") auto
  define n where "n = Number_js (teamKey tc row)"
  define dest where "dest = tabOf tabs n"
  define new where "new = writeRowAt dest (cursorOf dest + SA_ROWS_GAP + 1) 1 (take (t - 1) row)"
  from sm p have tabs': "tabs' = tabs(n \<mapsto> new)"
    by (simp add: stepTabs_def n_def dest_def new_def)
  have cell: "cellAt new r' c' =
               (if r' = cursorOf dest + SA_ROWS_GAP + 1 \<and> 1 \<le> c' \<and> c' \<le> length (take (t - 1) row)
                then row ! (c' - 1) else cellAt dest r' c')" for r' c'
  proof -
    have "take (t - 1) row ! (c' - 1) = row ! (c' - 1)" if "1 \<le> c'" "c' \<le> length (take (t - 1) row)"
    proof -
      from that have "c' - 1 < t - 1" by (simp add: min_def split: if_splits)
      then show ?thesis by (rule nth_take)
    qed
    then show ?thesis unfolding new_def using cellAt_paste[of dest "take (t - 1) row" r' c'] by auto
  qed
  have keep: "cellAt new r' c' = cellAt dest r' c'" if "hasContent (cellAt dest r' c')" for r' c'
    unfolding new_def using that by (rule paste_keeps_content)
  have "n = Number_js (js_index row (num_pred tc))" by (simp add: n_def teamKey_def)
  moreover have "dest = (case tabs n of Some sh \<Rightarrow> sh | None \<Rightarrow> [])" by (simp add: dest_def tabOf_def)
  moreover have "findLastContentRow dest = Inr (cursorOf dest)" by (rule findLastContentRow_cursorOf)
  moreover have "SA_ROWS_GAP = 5" by (simp add: SA_ROWS_GAP_def)
  ultimately show ?thesis using tabs' cell keep by blast
qed

theorem paste_below_cursor_witness:
  "map_option (\<lambda>sh. (cellAt sh 5 2, cellAt sh 11 1, cellAt sh 11 2, sh ! 10))
     (case migrateRow noRefusal (Finite 1) 3 1 [JNum (Finite 5), JStr ''a'', JStr []] (demoSource, cursor5Tabs, emptyReport)
      of Inr (src', tabs', rep') \<Rightarrow> tabs' (Finite 5) | Inl e \<Rightarrow> None) =
   Some (JStr ''x'', JNum (Finite 5), JStr ''a'', [JNum (Finite 5), JStr ''a''])"
proof -
  have v: "map_option (\<lambda>sh. (cellAt sh 5 2, cellAt sh 11 1, cellAt sh 11 2, sh ! 10))
     (case migrateRow noRefusal (Finite 1) 3 1 [JNum (Finite 5), JStr ''a'', JStr []] (demoSource, cursor5Tabs, emptyReport)
      of Inr (src', tabs', rep') \<Rightarrow> tabs' (Finite 5) | Inl e \<Rightarrow> None) =
   Some (JStr ''x'', JNum (Finite 5), JStr ''a'', [JNum (Finite 5), JStr ''a''])"
    by code_simp
  have c: "reportOf (migrateRow noRefusal (Finite 1) 3 1 [JNum (Finite 5), JStr ''a'', JStr []]
      (demoSource, cursor5Tabs, emptyReport)) =
    Some \<lparr>pushed = 1, skipped = 0, newSheets = 0, details = [Pasted (Finite 5) 2 11]\<rparr>"
    by code_simp
  then obtain src' tabs' rep' where
    e: "migrateRow noRefusal (Finite 1) 3 1 [JNum (Finite 5), JStr ''a'', JStr []] (demoSource, cursor5Tabs, emptyReport) =
          Inr (src', tabs', rep')" and p: "pushed rep' = 1"
    by (auto simp: reportOf_def split: sum.splits)
  from p have "pushed rep' \<noteq> pushed emptyReport" by (simp add: emptyReport_def)
  from paste_below_cursor [OF e this] v show ?thesis by simp
qed

section \<open>The order of paste and mark\<close>

lemma pasted_row_cells:
  assumes "1 \<le> c \<and> c \<le> length (take (t - 1) row)"
  shows "cellAt (writeRowAt dest (cursorOf dest + SA_ROWS_GAP + 1) 1 (take (t - 1) row))
           (cursorOf dest + SA_ROWS_GAP + 1) c = row ! (c - 1)"
proof -
  from assms have "1 \<le> c" "c \<le> t - 1" by simp_all
  then have "c - 1 < t - 1" by arith
  then have "take (t - 1) row ! (c - 1) = row ! (c - 1)" by (rule nth_take)
  with assms show ?thesis
    using cellAt_paste[of dest "take (t - 1) row" "cursorOf dest + SA_ROWS_GAP + 1" c] by simp
qed

lemma blocked_alt:
  "blocked rf tc t row tabs =
     (take (t - 1) row = [] \<or>
      rf (Number_js (js_index row (num_pred tc)))
         (case tabs (Number_js (js_index row (num_pred tc))) of Some sh \<Rightarrow> sh | None \<Rightarrow> [])
         \<lparr>rg_row = cursorOf (case tabs (Number_js (js_index row (num_pred tc))) of
                       Some sh \<Rightarrow> sh | None \<Rightarrow> []) + SA_ROWS_GAP + 1,
          rg_col = 1, rg_rows = 1, rg_cols = length (take (t - 1) row)\<rparr>)"
  by (simp add: blocked_def pasteRange_def teamKey_def tabOf_def)

lemma pushable_alt:
  "pushable tc t row =
     (js_nth row (t - 1) \<noteq> JStr SA_TRACKING_COL \<and> js_nth row (t - 1) \<noteq> JBool True \<and>
      js_nth row (t - 1) \<noteq> JStr ''TRUE'' \<and>
      js_index row (num_pred tc) \<noteq> JStr [] \<and> js_index row (num_pred tc) \<noteq> JNull \<and>
      js_index row (num_pred tc) \<noteq> JUndefined \<and>
      \<not> isNaN (Number_js (js_index row (num_pred tc))) \<and>
      \<not> num_le0 (Number_js (js_index row (num_pred tc))))"
  by (auto simp: pushable_def alreadyPasted_def emptyKey_def validTeam_def teamKey_def)

text \<open>
  C6. Take any row that the body of the loop comes to, with \<open>n\<close> the number of its key,
  \<open>dest\<close> the tab of that team (empty when there is none yet), \<open>cursor\<close> the last row of
  \<open>dest\<close> with content and \<open>rg\<close> the range of the paste. The service \<open>rf\<close> may refuse the
  write into \<open>rg\<close>.

  When the body throws, the source sheet is as it was, so the row has no mark, and it
  had none before; no cell of a team tab has been written, the only change being the
  new and empty tab of the team; and the exception is that of the paste: the range has
  no column, or the service has refused the write. From the state that is left, the body
  run again on the same row, with a service that takes the write, pastes the row, marks
  it and counts it.

  When the row is to be pasted (it has no mark and its key is valid) and the service
  refuses the write, the body throws.

  When the body returns, then either it has changed no sheet and has not counted the
  row, or the write was not refused, the tab of the team holds the cells of the row at
  the paste row, and the tracking cell of the row, and no other cell of the source, has
  been set to the marker.
\<close>

theorem mark_only_after_paste:
  assumes "n = Number_js (js_index row (num_pred tc))"
    and "dest = (case tabs n of Some sh \<Rightarrow> sh | None \<Rightarrow> [])"
    and "findLastContentRow dest = Inr cursor"
    and "rg = \<lparr>rg_row = cursor + SA_ROWS_GAP + 1, rg_col = 1, rg_rows = 1,
                rg_cols = length (take (t - 1) row)\<rparr>"
  shows "(migrateRow rf tc t r row (src, tabs, rep) = Inl (e, src', tabs') \<longrightarrow>
            src' = src \<and>
            js_nth row (t - 1) \<noteq> JStr SA_TRACKING_COL \<and> js_nth row (t - 1) \<noteq> JBool True \<and>
            js_nth row (t - 1) \<noteq> JStr ''TRUE'' \<and>
            (\<forall>m. tabs' m = (if m = n \<and> tabs n = None then Some [] else tabs m)) \<and>
            (take (t - 1) row = [] \<and> e = RangeError \<or>
             take (t - 1) row \<noteq> [] \<and> rf n dest rg \<and> e = WriteRefused) \<and>
            (\<forall>rf2 rep2. take (t - 1) row \<noteq> [] \<and> \<not> rf2 n dest rg \<longrightarrow>
               (\<exists>src2 tabs2 rep3 new.
                  migrateRow rf2 tc t r row (src', tabs', rep2) = Inr (src2, tabs2, rep3) \<and>
                  pushed rep3 = pushed rep2 + 1 \<and> tabs2 n = Some new \<and>
                  (\<forall>c. 1 \<le> c \<and> c \<le> length (take (t - 1) row)
                     \<longrightarrow> cellAt new (cursor + SA_ROWS_GAP + 1) c = row ! (c - 1)) \<and>
                  cellAt src2 (r + 1) t = JStr SA_TRACKING_COL))) \<and>
         (js_nth row (t - 1) \<noteq> JStr SA_TRACKING_COL \<and> js_nth row (t - 1) \<noteq> JBool True \<and>
          js_nth row (t - 1) \<noteq> JStr ''TRUE'' \<and>
          js_index row (num_pred tc) \<noteq> JStr [] \<and> js_index row (num_pred tc) \<noteq> JNull \<and>
          js_index row (num_pred tc) \<noteq> JUndefined \<and> \<not> isNaN n \<and> \<not> num_le0 n \<and> rf n dest rg
          \<longrightarrow> (\<exists>e1 tabs1. migrateRow rf tc t r row (src, tabs, rep) = Inl (e1, src, tabs1))) \<and>
         (migrateRow rf tc t r row (src, tabs, rep) = Inr (src', tabs', rep') \<longrightarrow>
            (src' = src \<and> tabs' = tabs \<and> pushed rep' = pushed rep) \<or>
            (\<not> rf n dest rg \<and> take (t - 1) row \<noteq> [] \<and>
             (\<exists>new. tabs' n = Some new \<and>
                (\<forall>c. 1 \<le> c \<and> c \<le> length (take (t - 1) row)
                   \<longrightarrow> cellAt new (cursor + SA_ROWS_GAP + 1) c = row ! (c - 1))) \<and>
             (\<forall>r' c'. cellAt src' r' c' =
                (if r' = r + 1 \<and> c' = t then JStr SA_TRACKING_COL else cellAt src r' c')) \<and>
             pushed rep' = pushed rep + 1))"
proof -
  have n: "n = Number_js (teamKey tc row)" using assms(1) by (simp add: teamKey_def)
  have dest: "dest = tabOf tabs n" using assms(2) by (simp add: tabOf_def)
  have cursor: "cursor = cursorOf dest" using assms(3) by (simp add: findLastContentRow_cursorOf)
  have bl: "blocked q tc t row tabs = (take (t - 1) row = [] \<or> q n dest rg)" for q
    unfolding blocked_alt assms(4) cursor assms(2) assms(1) ..
  have A: "src' = src \<and>
            js_nth row (t - 1) \<noteq> JStr SA_TRACKING_COL \<and> js_nth row (t - 1) \<noteq> JBool True \<and>
            js_nth row (t - 1) \<noteq> JStr ''TRUE'' \<and>
            (\<forall>m. tabs' m = (if m = n \<and> tabs n = None then Some [] else tabs m)) \<and>
            (take (t - 1) row = [] \<and> e = RangeError \<or>
             take (t - 1) row \<noteq> [] \<and> rf n dest rg \<and> e = WriteRefused) \<and>
            (\<forall>rf2 rep2. take (t - 1) row \<noteq> [] \<and> \<not> rf2 n dest rg \<longrightarrow>
               (\<exists>src2 tabs2 rep3 new.
                  migrateRow rf2 tc t r row (src', tabs', rep2) = Inr (src2, tabs2, rep3) \<and>
                  pushed rep3 = pushed rep2 + 1 \<and> tabs2 n = Some new \<and>
                  (\<forall>c. 1 \<le> c \<and> c \<le> length (take (t - 1) row)
                     \<longrightarrow> cellAt new (cursor + SA_ROWS_GAP + 1) c = row ! (c - 1)) \<and>
                  cellAt src2 (r + 1) t = JStr SA_TRACKING_COL))"
    if a: "migrateRow rf tc t r row (src, tabs, rep) = Inl (e, src', tabs')"
  proof -
    from migrateRow_Inl_summary[OF a] have p: "pushable tc t row" and b: "blocked rf tc t row tabs"
      and e: "e = blockError t row" and s: "src' = src" and tb: "tabs' = withTab tabs n"
      by (simp_all add: n)
    from p have unmarked: "js_nth row (t - 1) \<noteq> JStr SA_TRACKING_COL \<and>
        js_nth row (t - 1) \<noteq> JBool True \<and> js_nth row (t - 1) \<noteq> JStr ''TRUE''"
      by (simp add: pushable_alt)
    have tabs: "\<forall>m. tabs' m = (if m = n \<and> tabs n = None then Some [] else tabs m)"
      unfolding tb by (auto simp: withTab_def split: option.splits)
    have err: "take (t - 1) row = [] \<and> e = RangeError \<or>
        take (t - 1) row \<noteq> [] \<and> rf n dest rg \<and> e = WriteRefused"
      using b e by (auto simp: bl blockError_def)
    have retry: "\<exists>src2 tabs2 rep3 new.
                  migrateRow rf2 tc t r row (src', tabs', rep2) = Inr (src2, tabs2, rep3) \<and>
                  pushed rep3 = pushed rep2 + 1 \<and> tabs2 n = Some new \<and>
                  (\<forall>c. 1 \<le> c \<and> c \<le> length (take (t - 1) row)
                     \<longrightarrow> cellAt new (cursor + SA_ROWS_GAP + 1) c = row ! (c - 1)) \<and>
                  cellAt src2 (r + 1) t = JStr SA_TRACKING_COL"
      if h: "take (t - 1) row \<noteq> [] \<and> \<not> rf2 n dest rg" for rf2 rep2
    proof -
      from h have "\<not> blocked rf2 tc t row tabs" by (simp add: bl)
      then have nb: "\<not> blocked rf2 tc t row tabs'" unfolding tb n by (simp add: blocked_withTab)
      from h have t: "1 \<le> t" by (cases t) auto
      have d: "tabOf tabs' n = dest" unfolding tb dest by simp
      define new where "new = writeRowAt dest (cursorOf dest + SA_ROWS_GAP + 1) 1 (take (t - 1) row)"
      from migrateRow_push[OF p nb, of r src' rep2] obtain rep3 where
        res: "migrateRow rf2 tc t r row (src', tabs', rep2) =
           Inr (writeRowAt src' (r + 1) t [JStr SA_TRACKING_COL], tabs'(n \<mapsto> new), rep3)"
        and cnt: "pushed rep3 = pushed (withTabReport tabs' n rep2) + 1"
        by (simp add: n[symmetric] d new_def)
      have cnt': "pushed rep3 = pushed rep2 + 1"
        using cnt by (simp add: withTabReport_def split: option.splits)
      have cells: "\<forall>c. 1 \<le> c \<and> c \<le> length (take (t - 1) row)
          \<longrightarrow> cellAt new (cursor + SA_ROWS_GAP + 1) c = row ! (c - 1)"
        unfolding new_def cursor using pasted_row_cells[of _ t row dest] by blast
      have mark: "cellAt (writeRowAt src' (r + 1) t [JStr SA_TRACKING_COL]) (r + 1) t = JStr SA_TRACKING_COL"
        using t by (simp add: cellAt_writeRowAt)
      have "(tabs'(n \<mapsto> new)) n = Some new" by simp
      with res cnt' cells mark show ?thesis by blast
    qed
    from s unmarked tabs err retry show ?thesis by blast
  qed
  have B: "\<exists>e1 tabs1. migrateRow rf tc t r row (src, tabs, rep) = Inl (e1, src, tabs1)"
    if h: "js_nth row (t - 1) \<noteq> JStr SA_TRACKING_COL \<and> js_nth row (t - 1) \<noteq> JBool True \<and>
          js_nth row (t - 1) \<noteq> JStr ''TRUE'' \<and>
          js_index row (num_pred tc) \<noteq> JStr [] \<and> js_index row (num_pred tc) \<noteq> JNull \<and>
          js_index row (num_pred tc) \<noteq> JUndefined \<and> \<not> isNaN n \<and> \<not> num_le0 n \<and> rf n dest rg"
  proof -
    from h have p: "pushable tc t row" by (simp add: pushable_alt assms(1))
    from h have b: "blocked rf tc t row tabs" by (simp add: bl)
    from migrateRow_blocked[OF p b, of r src rep] show ?thesis by blast
  qed
  have C: "(src' = src \<and> tabs' = tabs \<and> pushed rep' = pushed rep) \<or>
            (\<not> rf n dest rg \<and> take (t - 1) row \<noteq> [] \<and>
             (\<exists>new. tabs' n = Some new \<and>
                (\<forall>c. 1 \<le> c \<and> c \<le> length (take (t - 1) row)
                   \<longrightarrow> cellAt new (cursor + SA_ROWS_GAP + 1) c = row ! (c - 1))) \<and>
             (\<forall>r' c'. cellAt src' r' c' =
                (if r' = r + 1 \<and> c' = t then JStr SA_TRACKING_COL else cellAt src r' c')) \<and>
             pushed rep' = pushed rep + 1)"
    if a: "migrateRow rf tc t r row (src, tabs, rep) = Inr (src', tabs', rep')"
  proof (cases "pushable tc t row")
    case False
    with migrateRow_Inr_summary[OF a] show ?thesis by simp
  next
    case True
    note sm = migrateRow_Inr_summary[OF a]
    define new where "new = writeRowAt dest (cursorOf dest + SA_ROWS_GAP + 1) 1 (take (t - 1) row)"
    from sm True have nb: "\<not> blocked rf tc t row tabs" and ne: "take (t - 1) row \<noteq> []"
      and src': "src' = writeRowAt src (r + 1) t [JStr SA_TRACKING_COL]"
      and tabs': "tabs' = tabs(n \<mapsto> new)" and cnt: "pushed rep' = pushed rep + 1"
      by (simp_all add: stepTabs_def n dest new_def)
    from ne have t: "1 \<le> t" by (cases t) auto
    from nb have nr: "\<not> rf n dest rg" by (simp add: bl)
    have cells: "\<forall>c. 1 \<le> c \<and> c \<le> length (take (t - 1) row)
          \<longrightarrow> cellAt new (cursor + SA_ROWS_GAP + 1) c = row ! (c - 1)"
      unfolding new_def cursor using pasted_row_cells[of _ t row dest] by blast
    have mark: "\<forall>r' c'. cellAt src' r' c' =
        (if r' = r + 1 \<and> c' = t then JStr SA_TRACKING_COL else cellAt src r' c')"
      unfolding src' using t by (auto simp: cellAt_writeRowAt)
    have "tabs' n = Some new" by (simp add: tabs')
    with nr ne cells mark cnt show ?thesis by blast
  qed
  from A B C show ?thesis by blast
qed

theorem mark_only_after_paste_witness:
  "(case migrateRow fullTab (Finite 1) 3 1 [JNum (Finite 5), JStr ''a'', JStr []]
           (demoSource, cursor5Tabs, emptyReport) of
      Inl (e, src', tabs') \<Rightarrow> Some (e, src', tabs' (Finite 5))
    | Inr st \<Rightarrow> None) =
   Some (WriteRefused, demoSource, Some row5Tab) \<and>
   reportOf (migrateRow noRefusal (Finite 1) 3 1 [JNum (Finite 5), JStr ''a'', JStr []]
      (demoSource, cursor5Tabs, emptyReport)) =
   Some \<lparr>pushed = 1, skipped = 0, newSheets = 0, details = [Pasted (Finite 5) 2 11]\<rparr>"
proof -
  have w: "reportOf (migrateRow noRefusal (Finite 1) 3 1 [JNum (Finite 5), JStr ''a'', JStr []]
      (demoSource, cursor5Tabs, emptyReport)) =
   Some \<lparr>pushed = 1, skipped = 0, newSheets = 0, details = [Pasted (Finite 5) 2 11]\<rparr>"
    by code_simp
  have v: "(case migrateRow fullTab (Finite 1) 3 1 [JNum (Finite 5), JStr ''a'', JStr []]
           (demoSource, cursor5Tabs, emptyReport) of
      Inl (e, src', tabs') \<Rightarrow> Some (e, tabs' (Finite 5))
    | Inr st \<Rightarrow> None) = Some (WriteRefused, Some row5Tab)"
    by code_simp
  then obtain e src' tabs' where
    a: "migrateRow fullTab (Finite 1) 3 1 [JNum (Finite 5), JStr ''a'', JStr []]
          (demoSource, cursor5Tabs, emptyReport) = Inl (e, src', tabs')"
    by (auto split: sum.splits)
  have h1: "Finite 5 = Number_js (js_index [JNum (Finite 5), JStr ''a'', JStr []] (num_pred (Finite 1)))"
    by (simp add: js_nth_def)
  have h2: "row5Tab = (case cursor5Tabs (Finite 5) of Some sh \<Rightarrow> sh | None \<Rightarrow> [])"
    by (simp add: cursor5Tabs_def)
  have h3: "findLastContentRow row5Tab = Inr 5" by code_simp
  have h4: "\<lparr>rg_row = 5 + SA_ROWS_GAP + 1, rg_col = 1, rg_rows = 1,
              rg_cols = length (take (3 - 1) [JNum (Finite 5), JStr ''a'', JStr []])\<rparr> =
            \<lparr>rg_row = 5 + SA_ROWS_GAP + 1, rg_col = 1, rg_rows = 1,
              rg_cols = length (take (3 - 1) [JNum (Finite 5), JStr ''a'', JStr []])\<rparr>" ..
  from mark_only_after_paste [where n = "Finite 5" and row = "[JNum (Finite 5), JStr ''a'', JStr []]"
      and tc = "Finite 1" and dest = row5Tab and tabs = cursor5Tabs and cursor = 5 and t = 3
      and rf = fullTab and r = 1 and src = demoSource and rep = emptyReport and e = e
      and src' = src' and tabs' = tabs', OF h1 h2 h3 h4] a
  have "src' = demoSource" by simp
  with a v w show ?thesis by simp
qed

section \<open>Where the rows of a run are pasted\<close>











section \<open>The forced run\<close>










end
